theory Spec2Isabelle
  imports Complex_Main
begin

section \<open>Strings, errors and numbers\<close>

text \<open>
  A Python \<open>str\<close> is a sequence of code points. The model uses \<open>string\<close> with one
  \<open>char\<close> per code point, which covers the code points below 256; the degree sign
  U+00B0 is the character \<open>0xB0\<close>.

  A Python float is modelled by the rational number it stands for. The value of
  \<open>float(text)\<close> is taken to be the decimal number the text denotes (Python keeps the
  binary64 nearest to it), negation is exact, and the float operations of the Jaccard
  computation round their exact result by a rounding function that the pipeline takes
  as a parameter.

  The exceptions of the pipeline are \<open>ValueError\<close>s; the specification calls the one of
  the coordinate parser \<open>ParseError\<close> and the one of the basin lookup \<open>NoBasinDataError\<close>.
  \<open>IndexError\<close> is what positional indexing raises out of range.
\<close>

datatype error = ValueError string | IndexError string

definition ParseError :: "string \<Rightarrow> error" where
  \<comment> \<open>\<open>raise ValueError(f"Could not parse coordinates from: {coord_str}")\<close>\<close>
  "ParseError coord_str = ValueError (''Could not parse coordinates from: '' @ coord_str)"

definition NoBasinDataError :: error where
  \<comment> \<open>what \<open>Series.idxmin\<close> raises on an empty series\<close>
  "NoBasinDataError = ValueError ''attempt to get argmin of an empty sequence''"

definition deg :: char where
  "deg = CHR 0xB0"

definition is_digit :: "char \<Rightarrow> bool" where
  \<comment> \<open>\<open>\d\<close>: the decimal digits below code point 256 are \<open>0\<close> .. \<open>9\<close>\<close>
  "is_digit c = (let n = (of_char c :: nat) in 48 \<le> n \<and> n \<le> 57)"

definition is_space :: "char \<Rightarrow> bool" where
  \<comment> \<open>\<open>\s\<close>: the white space below code point 256\<close>
  "is_space c = (let n = (of_char c :: nat) in
     (9 \<le> n \<and> n \<le> 13) \<or> (28 \<le> n \<and> n \<le> 32) \<or> n = 133 \<or> n = 160)"

section \<open>The regular expressions of the coordinate parser\<close>

text \<open>
  Both patterns of \<open>parse_coordinate_string\<close> are a sequence of quantified character
  classes, \<open>(\d+\.?\d*)\s*\<degree>([NS])\<close> and the same with \<open>[EW]\<close>. The matcher below is the
  backtracking matcher of \<open>re\<close> on such sequences: every quantifier is greedy, takes as
  many characters as it can and gives them back one by one when the rest of the pattern
  fails. A match is the list of the pieces of text the items consumed, in order.
\<close>

datatype cclass = Digit | Space | Lit char | OneOf string

datatype quant = QOne | QOpt | QStar | QPlus

type_synonym item = "cclass \<times> quant"

fun in_class :: "cclass \<Rightarrow> char \<Rightarrow> bool" where
  "in_class Digit c = is_digit c"
| "in_class Space c = is_space c"
| "in_class (Lit l) c = (c = l)"
| "in_class (OneOf ls) c = (c \<in> set ls)"

definition grow :: "char \<Rightarrow> string list \<Rightarrow> string list" where
  \<comment> \<open>the character joins the piece of the first item\<close>
  "grow x ms = (case ms of [] \<Rightarrow> [[x]] | m # ms' \<Rightarrow> (x # m) # ms')"

function match_here :: "item list \<Rightarrow> string \<Rightarrow> string list option" where
  "match_here [] cs = Some []"
| "match_here ((k, QOne) # its) [] = None"
| "match_here ((k, QOne) # its) (x # xs) =
     (if in_class k x then map_option ((#) [x]) (match_here its xs) else None)"
| "match_here ((k, QOpt) # its) [] = map_option ((#) []) (match_here its [])"
| "match_here ((k, QOpt) # its) (x # xs) =
     (case (if in_class k x then map_option ((#) [x]) (match_here its xs) else None) of
        Some ms \<Rightarrow> Some ms
      | None \<Rightarrow> map_option ((#) []) (match_here its (x # xs)))"
| "match_here ((k, QStar) # its) [] = map_option ((#) []) (match_here its [])"
| "match_here ((k, QStar) # its) (x # xs) =
     (case (if in_class k x then map_option (grow x) (match_here ((k, QStar) # its) xs)
            else None) of
        Some ms \<Rightarrow> Some ms
      | None \<Rightarrow> map_option ((#) []) (match_here its (x # xs)))"
| "match_here ((k, QPlus) # its) [] = None"
| "match_here ((k, QPlus) # its) (x # xs) =
     (if in_class k x then map_option (grow x) (match_here ((k, QStar) # its) xs) else None)"
  by pat_completeness auto
termination
  by (relation "measure (\<lambda>(its, cs). length its + length cs)") auto

fun re_search :: "item list \<Rightarrow> string \<Rightarrow> string list option" where
  \<comment> \<open>\<open>re.search\<close>: the match at the leftmost position that has one\<close>
  "re_search its [] = match_here its []"
| "re_search its (x # xs) =
     (case match_here its (x # xs) of
        Some ms \<Rightarrow> Some ms
      | None \<Rightarrow> re_search its xs)"

definition coord_pattern :: "string \<Rightarrow> item list" where
  "coord_pattern hemis =
     [(Digit, QPlus), (Lit CHR ''.'', QOpt), (Digit, QStar),
      (Space, QStar), (Lit deg, QOne), (OneOf hemis, QOne)]"

definition group1 :: "string list \<Rightarrow> string" where
  \<comment> \<open>\<open>(\d+\.?\d*)\<close>: the text of the first three items\<close>
  "group1 ms = concat (take 3 ms)"

definition group2 :: "string list \<Rightarrow> string" where
  \<comment> \<open>\<open>([NS])\<close>: the text of the sixth item\<close>
  "group2 ms = concat (take 1 (drop 5 ms))"

section \<open>The coordinate parser\<close>

definition digit_val :: "char \<Rightarrow> nat" where
  "digit_val c = of_char c - 48"

definition digits_val :: "string \<Rightarrow> nat" where
  "digits_val ds = foldl (\<lambda>a c. 10 * a + digit_val c) 0 ds"

definition is_decimal :: "string \<Rightarrow> bool" where
  \<comment> \<open>digits, then possibly a point and further digits\<close>
  "is_decimal g =
     (let ip = takeWhile is_digit g; r = dropWhile is_digit g
      in ip \<noteq> [] \<and> (r = [] \<or> (hd r = CHR ''.'' \<and> list_all is_digit (tl r))))"

definition decimal_value :: "string \<Rightarrow> rat" where
  "decimal_value g =
     (let ip = takeWhile is_digit g; fp = drop (length ip + 1) g
      in of_nat (digits_val ip) + of_nat (digits_val fp) / 10 ^ length fp)"

definition float_py :: "string \<Rightarrow> error + rat" where
  \<comment> \<open>\<open>float(g)\<close> on unsigned decimal text; any other text is reported as the
      \<open>ValueError\<close> of \<open>float\<close>, which no matched group can reach\<close>
  "float_py g =
     (if is_decimal g then Inr (decimal_value g)
      else Inl (ValueError (''could not convert string to float: '' @ g)))"

definition parse_coordinate_string :: "string \<Rightarrow> error + (rat \<times> rat)" where
  "parse_coordinate_string coord_str =
     (let lat_match = re_search (coord_pattern ''NS'') coord_str;
          lon_match = re_search (coord_pattern ''EW'') coord_str
      in case (lat_match, lon_match) of
           (Some lm, Some gm) \<Rightarrow>
             (case float_py (group1 lm) of
                Inl e \<Rightarrow> Inl e
              | Inr lat0 \<Rightarrow>
                  let lat = (if group2 lm = ''S'' then - lat0 else lat0)
                  in (case float_py (group1 gm) of
                        Inl e \<Rightarrow> Inl e
                      | Inr lon0 \<Rightarrow>
                          let lon = (if group2 gm = ''W'' then - lon0 else lon0)
                          in Inr (lat, lon)))
         | _ \<Rightarrow> Inl (ParseError coord_str))"

section \<open>The basin lookup\<close>

text \<open>
  The polygons and the two geometric tests come from the geometry library. The lookup
  takes them as parameters: \<open>contains g p\<close> for \<open>g.contains(p)\<close> and \<open>distance g p\<close> for
  \<open>g.distance(p)\<close>, for any type \<open>'g\<close> of geometries. A basin table is the list of its
  rows in the order of the data set, indexed from 0 as by \<open>load_shapefile\<close>.
\<close>

record 'g basin_row =
  BasinName :: string
  geometry :: 'g

datatype diagnostic =
  NearestBasinWarning rat rat string rat
  \<comment> \<open>\<open>Warning: No basin contains point (lat, lon). Nearest basin is b at distance d degrees\<close>\<close>

definition Point :: "rat \<Rightarrow> rat \<Rightarrow> rat \<times> rat" where
  "Point x y = (x, y)"

fun argmin_scan :: "nat \<Rightarrow> rat \<Rightarrow> nat \<Rightarrow> rat list \<Rightarrow> nat" where
  \<comment> \<open>the position of the least value seen so far, the value, the next position\<close>
  "argmin_scan best v i [] = best"
| "argmin_scan best v i (d # ds) =
     (if d < v then argmin_scan i d (Suc i) ds else argmin_scan best v (Suc i) ds)"

fun idxmin :: "rat list \<Rightarrow> error + nat" where
  \<comment> \<open>\<open>Series.idxmin\<close>: the first position of the minimum; an empty series raises\<close>
  "idxmin [] = Inl NoBasinDataError"
| "idxmin (d # ds) = Inr (argmin_scan 0 d 1 ds)"

definition iloc :: "'a list \<Rightarrow> nat \<Rightarrow> error + 'a" where
  "iloc rows i =
     (if i < length rows then Inr (rows ! i)
      else Inl (IndexError ''single positional indexer is out-of-bounds''))"

definition find_basin_by_coordinates ::
  "('g \<Rightarrow> rat \<times> rat \<Rightarrow> bool) \<Rightarrow> ('g \<Rightarrow> rat \<times> rat \<Rightarrow> rat) \<Rightarrow>
   rat \<Rightarrow> rat \<Rightarrow> 'g basin_row list \<Rightarrow> (error + string) \<times> diagnostic list" where
  "find_basin_by_coordinates contains distance lat lon basins_gdf =
     (let point = Point lon lat;
          containing_basins = filter (\<lambda>b. contains (geometry b) point) basins_gdf
      in if length containing_basins > 0 then
           (case iloc containing_basins 0 of
              Inl e \<Rightarrow> (Inl e, [])
            | Inr first \<Rightarrow> (Inr (BasinName first), []))
         else
           (let distances = map (\<lambda>b. distance (geometry b) point) basins_gdf
            in case idxmin distances of
                 Inl e \<Rightarrow> (Inl e, [])
               | Inr nearest_idx \<Rightarrow>
                   (case iloc basins_gdf nearest_idx of
                      Inl e \<Rightarrow> (Inl e, [])
                    | Inr row \<Rightarrow>
                        (let nearest_basin = BasinName row
                         in case iloc distances nearest_idx of
                              Inl e \<Rightarrow> (Inl e, [])
                            | Inr nearest_distance \<Rightarrow>
                                (Inr nearest_basin,
                                 [NearestBasinWarning lat lon nearest_basin nearest_distance])))))"

section \<open>Fish diversity of a basin\<close>

record occurrence =
  Basin_Name :: string  \<comment> \<open>column \<open>1.Basin.Name\<close>\<close>
  Native_Exotic_Status :: string  \<comment> \<open>column \<open>3.Native.Exotic.Status\<close>\<close>
  Species_Name :: string  \<comment> \<open>column \<open>6.Fishbase.Valid.Species.Name\<close>\<close>

record diversity =
  species_count :: nat
  native_species_count :: nat
  exotic_species_count :: nat
  species_list :: "string list"

fun unique_from :: "'a list \<Rightarrow> 'a list \<Rightarrow> 'a list" where
  "unique_from seen [] = []"
| "unique_from seen (x # xs) =
     (if x \<in> set seen then unique_from seen xs else x # unique_from (x # seen) xs)"

definition unique :: "'a list \<Rightarrow> 'a list" where
  \<comment> \<open>\<open>Series.unique\<close>: the distinct values in the order of their first appearance\<close>
  "unique xs = unique_from [] xs"

definition nunique :: "'a list \<Rightarrow> nat" where
  \<comment> \<open>\<open>Series.nunique\<close>: the number of distinct values\<close>
  "nunique xs = length (unique xs)"

definition get_basin_fish_diversity :: "string \<Rightarrow> occurrence list \<Rightarrow> diversity" where
  "get_basin_fish_diversity basin_name occ_df =
     (let basin_fish = filter (\<lambda>r. Basin_Name r = basin_name) occ_df
      in if length basin_fish = 0 then
           \<lparr>species_count = 0, native_species_count = 0, exotic_species_count = 0,
            species_list = []\<rparr>
         else
           (let species_count = nunique (map Species_Name basin_fish);
                native_fish = filter (\<lambda>r. Native_Exotic_Status r = ''native'') basin_fish;
                exotic_fish = filter (\<lambda>r. Native_Exotic_Status r = ''exotic'') basin_fish;
                native_species_count = nunique (map Species_Name native_fish);
                exotic_species_count = nunique (map Species_Name exotic_fish);
                species_list = unique (map Species_Name basin_fish)
            in \<lparr>species_count = species_count, native_species_count = native_species_count,
                exotic_species_count = exotic_species_count, species_list = species_list\<rparr>))"

section \<open>The pipeline\<close>

text \<open>
  The two float operations of the Jaccard computation, the division and the subtraction
  from 1, round their exact result; \<open>rnd\<close> is that rounding. The integers \<open>0\<close> and \<open>1\<close> of
  the branches without a division are exact.
\<close>

record ibt_row =
  number :: int  \<comment> \<open>column \<open>#\<close>\<close>
  Basin_Pair :: string
  Project_Country :: string
  Design_Flow :: string
  Sender_Coordinates :: string
  Receiver_Coordinates :: string

record project_head =
  rank :: int
  basin_pair :: string
  project :: string
  design_flow :: string

record project_row = project_head +
  sender_lat :: rat
  sender_lon :: rat
  receiver_lat :: rat
  receiver_lon :: rat

record result_row = project_head +
  sender_basin :: string
  receiver_basin :: string
  sender_species_count :: nat
  sender_native_count :: nat
  sender_exotic_count :: nat
  receiver_species_count :: nat
  receiver_native_count :: nat
  receiver_exotic_count :: nat
  jaccard_similarity :: rat
  jaccard_dissimilarity :: rat
  shared_species_count :: nat
  total_unique_species :: nat

fun parse_ibt_coordinates :: "ibt_row list \<Rightarrow> error + project_row list" where
  "parse_ibt_coordinates [] = Inr []"
| "parse_ibt_coordinates (row # ibt_df) =
     (case parse_coordinate_string (Sender_Coordinates row) of
        Inl e \<Rightarrow> Inl e
      | Inr (s_lat, s_lon) \<Rightarrow>
          (case parse_coordinate_string (Receiver_Coordinates row) of
             Inl e \<Rightarrow> Inl e
           | Inr (r_lat, r_lon) \<Rightarrow>
               (case parse_ibt_coordinates ibt_df of
                  Inl e \<Rightarrow> Inl e
                | Inr projects \<Rightarrow>
                    Inr (\<lparr>rank = number row, basin_pair = Basin_Pair row,
                          project = Project_Country row, design_flow = Design_Flow row,
                          sender_lat = s_lat, sender_lon = s_lon,
                          receiver_lat = r_lat, receiver_lon = r_lon\<rparr> # projects))))"

definition jaccard :: "(rat \<Rightarrow> rat) \<Rightarrow> string set \<Rightarrow> string set \<Rightarrow> rat \<times> rat" where
  \<comment> \<open>lines 161 to 168 of \<open>main\<close>: the similarity and the dissimilarity\<close>
  "jaccard rnd sender_species receiver_species =
     (if card sender_species = 0 \<and> card receiver_species = 0 then (0, 0)
      else
        (let n_intersection = card (sender_species \<inter> receiver_species);
             n_union = card (sender_species \<union> receiver_species);
             similarity = (if n_union > 0 then rnd (of_nat n_intersection / of_nat n_union) else 0);
             dissimilarity = (if n_union > 0 then rnd (1 - similarity) else 1 - similarity)
         in (similarity, dissimilarity)))"

definition process_project ::
  "(rat \<Rightarrow> rat) \<Rightarrow> ('g \<Rightarrow> rat \<times> rat \<Rightarrow> bool) \<Rightarrow> ('g \<Rightarrow> rat \<times> rat \<Rightarrow> rat) \<Rightarrow>
   'g basin_row list \<Rightarrow> occurrence list \<Rightarrow> project_row \<Rightarrow>
   (error + result_row) \<times> diagnostic list" where
  \<comment> \<open>the body of the loop of \<open>main\<close> for one project\<close>
  "process_project rnd contains distance basins_gdf occ_df p =
     (case find_basin_by_coordinates contains distance (sender_lat p) (sender_lon p) basins_gdf of
        (Inl e, out1) \<Rightarrow> (Inl e, out1)
      | (Inr sender_b, out1) \<Rightarrow>
          (case find_basin_by_coordinates contains distance
                  (receiver_lat p) (receiver_lon p) basins_gdf of
             (Inl e, out2) \<Rightarrow> (Inl e, out1 @ out2)
           | (Inr receiver_b, out2) \<Rightarrow>
               (let sender_diversity = get_basin_fish_diversity sender_b occ_df;
                    receiver_diversity = get_basin_fish_diversity receiver_b occ_df;
                    sender_species = set (species_list sender_diversity);
                    receiver_species = set (species_list receiver_diversity);
                    (similarity, dissimilarity) = jaccard rnd sender_species receiver_species
                in (Inr \<lparr>rank = rank p, basin_pair = basin_pair p, project = project p,
                         design_flow = design_flow p,
                         sender_basin = sender_b, receiver_basin = receiver_b,
                         sender_species_count = species_count sender_diversity,
                         sender_native_count = native_species_count sender_diversity,
                         sender_exotic_count = exotic_species_count sender_diversity,
                         receiver_species_count = species_count receiver_diversity,
                         receiver_native_count = native_species_count receiver_diversity,
                         receiver_exotic_count = exotic_species_count receiver_diversity,
                         jaccard_similarity = similarity,
                         jaccard_dissimilarity = dissimilarity,
                         shared_species_count = card (sender_species \<inter> receiver_species),
                         total_unique_species = card (sender_species \<union> receiver_species)\<rparr>,
                    out1 @ out2))))"

fun main_rows ::
  "(rat \<Rightarrow> rat) \<Rightarrow> ('g \<Rightarrow> rat \<times> rat \<Rightarrow> bool) \<Rightarrow> ('g \<Rightarrow> rat \<times> rat \<Rightarrow> rat) \<Rightarrow>
   'g basin_row list \<Rightarrow> occurrence list \<Rightarrow> project_row list \<Rightarrow>
   (error + result_row list) \<times> diagnostic list" where
  \<comment> \<open>the loop of \<open>main\<close>: the rows of the result table, in the order of the projects\<close>
  "main_rows rnd contains distance basins_gdf occ_df [] = (Inr [], [])"
| "main_rows rnd contains distance basins_gdf occ_df (p # ibt_projects) =
     (case process_project rnd contains distance basins_gdf occ_df p of
        (Inl e, out1) \<Rightarrow> (Inl e, out1)
      | (Inr result, out1) \<Rightarrow>
          (case main_rows rnd contains distance basins_gdf occ_df ibt_projects of
             (Inl e, out2) \<Rightarrow> (Inl e, out1 @ out2)
           | (Inr results, out2) \<Rightarrow> (Inr (result # results), out1 @ out2)))"

definition main ::
  "(rat \<Rightarrow> rat) \<Rightarrow> ('g \<Rightarrow> rat \<times> rat \<Rightarrow> bool) \<Rightarrow> ('g \<Rightarrow> rat \<times> rat \<Rightarrow> rat) \<Rightarrow>
   'g basin_row list \<Rightarrow> occurrence list \<Rightarrow> ibt_row list \<Rightarrow>
   (error + result_row list) \<times> diagnostic list" where
  \<comment> \<open>\<open>main\<close> on loaded tables: the coordinates of all projects are parsed first\<close>
  "main rnd contains distance basins_gdf occ_df ibt_df =
     (case parse_ibt_coordinates ibt_df of
        Inl e \<Rightarrow> (Inl e, [])
      | Inr ibt_projects \<Rightarrow> main_rows rnd contains distance basins_gdf occ_df ibt_projects)"

section \<open>Rounding to binary64\<close>

text \<open>
  The rounding of a float operation whose exact result lies in the normal range of
  binary64: to the nearest number with 53 significant bits, a tie going to the even one.
  \<open>float_exponent x\<close> is the exponent of the leading bit of a positive \<open>x\<close>.
\<close>

function bits :: "int \<Rightarrow> nat" where
  "bits n = (if n \<le> 0 then 0 else Suc (bits (n div 2)))"
  by auto
termination
  by (relation "measure nat") auto

declare bits.simps [simp del]

definition float_exponent :: "rat \<Rightarrow> int" where
  "float_exponent x =
     (let (p, q) = quotient_of x;
          d = int (bits p) - int (bits q)
      in if 2 powi d \<le> x then d else d - 1)"

definition round_half_even :: "rat \<Rightarrow> int" where
  "round_half_even m =
     (let f = \<lfloor>m\<rfloor>; r = m - of_int f
      in if r < 1 / 2 then f else if 1 / 2 < r then f + 1 else if even f then f else f + 1)"

definition binary64 :: "rat \<Rightarrow> rat" where
  "binary64 x =
     (if x = 0 then 0
      else (let e = float_exponent \<bar>x\<bar>; u = 2 powi (e - 52)
            in sgn x * of_int (round_half_even (\<bar>x\<bar> / u)) * u))"

section \<open>Example data\<close>

text \<open>
  A geometry for examples: the band between two meridians, given by its western and its
  eastern longitude. A point is inside when it lies strictly between them, and its planar
  distance to the band is the distance to the nearer meridian.
\<close>

type_synonym band = "rat \<times> rat"

definition band_contains :: "band \<Rightarrow> rat \<times> rat \<Rightarrow> bool" where
  "band_contains g p = (fst g < fst p \<and> fst p < snd g)"

definition band_distance :: "band \<Rightarrow> rat \<times> rat \<Rightarrow> rat" where
  "band_distance g p =
     (if fst p < fst g then fst g - fst p else if snd g < fst p then fst p - snd g else 0)"

definition example_basins :: "band basin_row list" where
  "example_basins =
     [\<lparr>BasinName = ''Nile'', geometry = (25, 40)\<rparr>,
      \<lparr>BasinName = ''Indus'', geometry = (66, 78)\<rparr>,
      \<lparr>BasinName = ''Ganges'', geometry = (73, 90)\<rparr>,
      \<lparr>BasinName = ''Amur'', geometry = (120, 135)\<rparr>]"

definition example_occ :: "occurrence list" where
  "example_occ =
     [\<lparr>Basin_Name = ''Indus'', Native_Exotic_Status = ''native'', Species_Name = ''Tor putitora''\<rparr>,
      \<lparr>Basin_Name = ''Indus'', Native_Exotic_Status = ''native'', Species_Name = ''Labeo rohita''\<rparr>,
      \<lparr>Basin_Name = ''Indus'', Native_Exotic_Status = ''exotic'', Species_Name = ''Cyprinus carpio''\<rparr>,
      \<lparr>Basin_Name = ''Indus'', Native_Exotic_Status = ''native'', Species_Name = ''Tor putitora''\<rparr>,
      \<lparr>Basin_Name = ''Ganges'', Native_Exotic_Status = ''native'', Species_Name = ''Labeo rohita''\<rparr>,
      \<lparr>Basin_Name = ''Ganges'', Native_Exotic_Status = ''exotic'', Species_Name = ''Cyprinus carpio''\<rparr>,
      \<lparr>Basin_Name = ''Ganges'', Native_Exotic_Status = ''unknown'', Species_Name = ''Wallago attu''\<rparr>,
      \<lparr>Basin_Name = ''Nile'', Native_Exotic_Status = ''exotic'', Species_Name = ''Cyprinus carpio''\<rparr>]"

definition example_ibt :: "ibt_row list" where
  "example_ibt =
     [\<lparr>number = 1, Basin_Pair = ''Indus to Ganges'', Project_Country = ''Link canal'',
       Design_Flow = ''10'',
       Sender_Coordinates = ''Tarbela 34.09 '' @ [deg] @ ''N 72.70 '' @ [deg] @ ''E'',
       Receiver_Coordinates = ''Varanasi 25.32 '' @ [deg] @ ''N 83.01 '' @ [deg] @ ''E''\<rparr>,
      \<lparr>number = 2, Basin_Pair = ''Amur to coast'', Project_Country = ''Coastal scheme'',
       Design_Flow = ''5'',
       Sender_Coordinates = ''50.0 '' @ [deg] @ ''N 127.5 '' @ [deg] @ ''E'',
       Receiver_Coordinates = ''140.0 '' @ [deg] @ ''E, 46.0 '' @ [deg] @ ''N''\<rparr>,
      \<lparr>number = 3, Basin_Pair = ''Nile to Indus'', Project_Country = ''Long tunnel'',
       Design_Flow = ''1'',
       Sender_Coordinates = ''Toshka 22.6 '' @ [deg] @ ''N 31.3 '' @ [deg] @ ''E'',
       Receiver_Coordinates = ''Sukkur 27.7 '' @ [deg] @ ''N 70.0 '' @ [deg] @ ''E''\<rparr>]"

section \<open>Tokens of a coordinate string\<close>

text \<open>
  What the specification calls a latitude or longitude token: a decimal magnitude, white
  space, the degree sign and a hemisphere letter. \<open>token_at H cs g h\<close> says that the text
  \<open>cs\<close> begins with such a token, of magnitude text \<open>g\<close> and letter \<open>h\<close> among \<open>H\<close>, and
  \<open>has_token H s\<close> that a token begins somewhere in \<open>s\<close>.
\<close>

definition is_dd :: "char \<Rightarrow> bool" where
  "is_dd c \<longleftrightarrow> is_digit c \<or> c = CHR ''.''"

definition token_at :: "string \<Rightarrow> string \<Rightarrow> string \<Rightarrow> char \<Rightarrow> bool" where
  "token_at H cs g h \<longleftrightarrow>
     (\<exists>ws rest. cs = g @ ws @ [deg, h] @ rest \<and> is_decimal g \<and> list_all is_space ws \<and> h \<in> set H)"

definition has_token :: "string \<Rightarrow> string \<Rightarrow> bool" where
  "has_token H s \<longleftrightarrow> (\<exists>pre cs g h. s = pre @ cs \<and> token_at H cs g h)"

text \<open>
  \<open>first_token H pre T\<close>: no token of the kind \<open>H\<close> begins in the text \<open>pre\<close> that
  stands before \<open>T\<close>, so that a token at the start of \<open>T\<close> is the first of the string.
\<close>

definition first_token :: "string \<Rightarrow> string \<Rightarrow> string \<Rightarrow> bool" where
  "first_token H pre T \<longleftrightarrow> (\<forall>p q g h. pre = p @ q \<and> q \<noteq> [] \<longrightarrow> \<not> token_at H (q @ T) g h)"

text \<open>
  A test that suffices for it: the text before the token holds no degree sign followed by
  a letter of \<open>H\<close> and does not end in a digit or a point.
\<close>

fun has_mark :: "string \<Rightarrow> string \<Rightarrow> bool" where
  "has_mark H (a # b # cs) = ((a = deg \<and> b \<in> set H) \<or> has_mark H (b # cs))"
| "has_mark H cs = False"

definition delimited :: "string \<Rightarrow> string \<Rightarrow> bool" where
  "delimited H pre \<longleftrightarrow> \<not> has_mark H pre \<and> (pre = [] \<or> \<not> is_dd (last pre))"

text \<open>What a piece of a match has to be for its item.\<close>

fun piece_ok :: "item \<Rightarrow> string \<Rightarrow> bool" where
  "piece_ok (k, QOne) m = (length m = 1 \<and> list_all (in_class k) m)"
| "piece_ok (k, QOpt) m = (length m \<le> 1 \<and> list_all (in_class k) m)"
| "piece_ok (k, QStar) m = list_all (in_class k) m"
| "piece_ok (k, QPlus) m = (m \<noteq> [] \<and> list_all (in_class k) m)"

definition sound :: "item list \<Rightarrow> string \<Rightarrow> string list \<Rightarrow> bool" where
  "sound its cs ms \<longleftrightarrow> list_all2 piece_ok its ms \<and> (\<exists>rest. cs = concat ms @ rest)"

section \<open>The matcher finds the tokens\<close>

lemma sound_one:
  "in_class k x \<Longrightarrow> sound its xs ms \<Longrightarrow> sound ((k, QOne) # its) (x # xs) ([x] # ms)"
  by (auto simp: sound_def)

lemma sound_opt1:
  "in_class k x \<Longrightarrow> sound its xs ms \<Longrightarrow> sound ((k, QOpt) # its) (x # xs) ([x] # ms)"
  by (auto simp: sound_def)

lemma sound_skip:
  "q = QOpt \<or> q = QStar \<Longrightarrow> sound its cs ms \<Longrightarrow> sound ((k, q) # its) cs ([] # ms)"
  by (auto simp: sound_def)

lemma sound_grow:
  "in_class k x \<Longrightarrow> sound ((k, QStar) # its) xs ms \<Longrightarrow> q = QStar \<or> q = QPlus
   \<Longrightarrow> sound ((k, q) # its) (x # xs) (grow x ms)"
  by (auto simp: sound_def grow_def list_all2_Cons1)

lemma match_here_sound:
  "match_here its cs = Some ms \<Longrightarrow> sound its cs ms"
proof (induction its cs arbitrary: ms rule: match_here.induct)
  case (1 cs)
  then show ?case by (simp add: sound_def)
next
  case (3 k its x xs)
  then show ?case by (auto split: if_splits intro: sound_one)
next
  case (4 k its)
  then show ?case by (auto intro: sound_skip)
next
  case (5 k its x xs)
  then show ?case
    by (auto split: if_splits option.splits intro: sound_opt1 sound_skip)
next
  case (6 k its)
  then show ?case by (auto intro: sound_skip)
next
  case (7 k its x xs)
  then show ?case
    by (auto split: if_splits option.splits intro: sound_grow sound_skip)
next
  case (9 k its x xs)
  then show ?case
    by (auto split: if_splits option.splits intro: sound_grow)
qed simp_all

lemma match_here_complete:
  "list_all2 piece_ok its ms \<Longrightarrow> cs = concat ms @ rest \<Longrightarrow> match_here its cs \<noteq> None"
proof (induction its cs arbitrary: ms rule: match_here.induct)
  case (1 cs)
  then show ?case by simp
next
  case (2 k its)
  then show ?case by (auto simp: list_all2_Cons1)
next
  case (3 k its x xs)
  then show ?case by (auto simp: list_all2_Cons1 length_Suc_conv)
next
  case (4 k its)
  then show ?case by (auto simp: list_all2_Cons1)
next
  case (5 k its x xs)
  from 5(3) obtain m ms' where ms: "ms = m # ms'" "piece_ok (k, QOpt) m" "list_all2 piece_ok its ms'"
    by (auto simp: list_all2_Cons1)
  show ?case
  proof (cases m)
    case Nil
    show ?thesis
    proof (cases "if in_class k x then map_option ((#) [x]) (match_here its xs) else None")
      case None
      have "x # xs = concat ms' @ rest" using 5(4) ms Nil by simp
      from 5(2)[OF None ms(3) this] None show ?thesis by simp
    next
      case (Some a)
      then show ?thesis by simp
    qed
  next
    case (Cons y ys)
    with ms 5(4) have "ys = []" "y = x" "in_class k x" "xs = concat ms' @ rest" by auto
    with ms have "match_here its xs \<noteq> None" using 5(1) by blast
    with \<open>in_class k x\<close> show ?thesis by (auto split: option.splits)
  qed
next
  case (6 k its)
  then show ?case by (auto simp: list_all2_Cons1)
next
  case (7 k its x xs)
  from 7(3) obtain m ms' where ms: "ms = m # ms'" "piece_ok (k, QStar) m" "list_all2 piece_ok its ms'"
    by (auto simp: list_all2_Cons1)
  show ?case
  proof (cases m)
    case Nil
    show ?thesis
    proof (cases "if in_class k x then map_option (grow x) (match_here ((k, QStar) # its) xs)
            else None")
      case None
      have "x # xs = concat ms' @ rest" using 7(4) ms Nil by simp
      from 7(2)[OF None ms(3) this] None show ?thesis by simp
    next
      case (Some a)
      then show ?thesis by simp
    qed
  next
    case (Cons y ys)
    with ms 7(4) have *: "y = x" "in_class k x" "xs = concat (ys # ms') @ rest"
      "list_all2 piece_ok ((k, QStar) # its) (ys # ms')" by auto
    then have "match_here ((k, QStar) # its) xs \<noteq> None" using 7(1) by blast
    with \<open>in_class k x\<close> show ?thesis by (auto split: option.splits)
  qed
next
  case (8 k its)
  then show ?case by (auto simp: list_all2_Cons1)
next
  case (9 k its x xs)
  from 9(2) obtain m ms' where ms: "ms = m # ms'" "piece_ok (k, QPlus) m" "list_all2 piece_ok its ms'"
    by (auto simp: list_all2_Cons1)
  then obtain y ys where m: "m = y # ys" by (cases m) auto
  with ms 9(3) have *: "y = x" "in_class k x" "xs = concat (ys # ms') @ rest"
      "list_all2 piece_ok ((k, QStar) # its) (ys # ms')" by auto
  then have "match_here ((k, QStar) # its) xs \<noteq> None" using 9(1) by blast
  with \<open>in_class k x\<close> show ?case by (auto split: option.splits)
qed

lemma takeWhile_run: "\<forall>x\<in>set g. P x \<Longrightarrow> \<not> P a \<Longrightarrow> takeWhile P (g @ a # r) = g"
  by (simp add: takeWhile_append2)

lemma dropWhile_run: "\<forall>x\<in>set g. P x \<Longrightarrow> \<not> P a \<Longrightarrow> dropWhile P (g @ a # r) = a # r"
  by (simp add: dropWhile_append2)

lemma dot_not_digit [simp]: "\<not> is_digit CHR ''.''"
  by (simp add: is_digit_def)

lemma deg_not_digit [simp]: "\<not> is_digit deg"
  by (simp add: is_digit_def deg_def)

lemma deg_not_space [simp]: "\<not> is_space deg"
  by (simp add: is_space_def deg_def)

lemma deg_not_dot [simp]: "deg \<noteq> CHR ''.''"
  by (simp add: deg_def)

lemma digit_not_space: "is_digit c \<Longrightarrow> \<not> is_space c"
  by (auto simp: is_digit_def is_space_def Let_def)

lemma dot_not_space [simp]: "\<not> is_space CHR ''.''"
  by (simp add: is_space_def)

lemma space_not_dd: "is_space c \<Longrightarrow> \<not> is_dd c"
  using digit_not_space[of c] by (auto simp: is_dd_def)

lemma deg_not_dd [simp]: "\<not> is_dd deg"
  by (simp add: is_dd_def)

lemma coord_pieces:
  "list_all2 piece_ok (coord_pattern H) ms \<longleftrightarrow>
     (\<exists>d1 dt d2 ws h. ms = [d1, dt, d2, ws, [deg], [h]] \<and> d1 \<noteq> [] \<and> list_all is_digit d1 \<and>
        (dt = [] \<or> dt = ''.'') \<and> list_all is_digit d2 \<and> list_all is_space ws \<and> h \<in> set H)"
  by (auto simp: coord_pattern_def list_all2_Cons1 length_Suc_conv le_Suc_eq list_all_iff)

lemma is_decimal_pieces:
  assumes "d1 \<noteq> []" "list_all is_digit d1" "dt = [] \<or> dt = ''.''" "list_all is_digit d2"
  shows "is_decimal (d1 @ dt @ d2)"
proof (cases "dt = []")
  case True
  with assms have "list_all is_digit (d1 @ d2)" by simp
  then have "takeWhile is_digit (d1 @ d2) = d1 @ d2" "dropWhile is_digit (d1 @ d2) = []"
    by (simp_all add: list_all_iff)
  with True assms show ?thesis by (simp add: is_decimal_def)
next
  case False
  with assms have dt: "dt = ''.''" by simp
  have "takeWhile is_digit (d1 @ ''.'' @ d2) = d1" "dropWhile is_digit (d1 @ ''.'' @ d2) = ''.'' @ d2"
    using assms(2) by (simp_all add: list_all_iff takeWhile_append2 dropWhile_append2)
  with dt assms show ?thesis by (simp add: is_decimal_def)
qed

lemma is_decimal_split:
  assumes "is_decimal g"
  obtains d1 dt d2 where "g = d1 @ dt @ d2" "d1 \<noteq> []" "list_all is_digit d1"
    "dt = [] \<or> dt = ''.''" "list_all is_digit d2"
proof (cases "dropWhile is_digit g")
  case Nil
  then have all: "\<forall>x\<in>set g. is_digit x" by simp
  then have T: "takeWhile is_digit g = g" by (simp add: takeWhile_eq_all_conv)
  show ?thesis
  proof (rule that[of g "[]" "[]"])
    show "g \<noteq> []" using assms T by (auto simp: is_decimal_def Let_def)
    show "list_all is_digit g" using all by (simp add: list_all_iff)
  qed simp_all
next
  case (Cons a r)
  with assms have a: "a = CHR ''.''" "list_all is_digit r" "takeWhile is_digit g \<noteq> []"
    by (simp_all add: is_decimal_def Let_def)
  show ?thesis
  proof (rule that[of "takeWhile is_digit g" "''.''" r])
    show "g = takeWhile is_digit g @ ''.'' @ r"
      unfolding append_Cons append_Nil
      by (rule takeWhile_dropWhile_id[of is_digit g, unfolded Cons a, symmetric])
    show "list_all is_digit (takeWhile is_digit g)" by (auto simp: list_all_iff dest: set_takeWhileD)
  qed (use a in simp_all)
qed

lemma is_decimal_dd: "is_decimal g \<Longrightarrow> list_all is_dd g"
  by (erule is_decimal_split) (auto simp: list_all_iff is_dd_def)

lemma is_decimal_nonempty: "is_decimal g \<Longrightarrow> g \<noteq> []"
  by (auto simp: is_decimal_def)

lemma is_decimal_hd: "is_decimal g \<Longrightarrow> is_digit (hd g)"
  by (erule is_decimal_split) (auto simp: list_all_iff neq_Nil_conv)

lemma tail_starts_non_dd:
  "list_all is_space ws \<Longrightarrow> \<exists>a r. ws @ [deg, h] @ rest = a # r \<and> \<not> is_dd a"
  by (cases ws) (simp_all add: space_not_dd)

lemma match_here_token:
  assumes "match_here (coord_pattern H) cs = Some ms"
  shows "\<exists>h. group2 ms = [h] \<and> token_at H cs (group1 ms) h"
proof -
  from match_here_sound[OF assms] obtain rest where
    ok: "list_all2 piece_ok (coord_pattern H) ms" and cs: "cs = concat ms @ rest"
    by (auto simp: sound_def)
  from ok obtain d1 dt d2 ws h where ms: "ms = [d1, dt, d2, ws, [deg], [h]]" and
    p: "d1 \<noteq> []" "list_all is_digit d1" "dt = [] \<or> dt = ''.''" "list_all is_digit d2"
       "list_all is_space ws" "h \<in> set H"
    unfolding coord_pieces by blast
  have dec: "is_decimal (d1 @ dt @ d2)" using p by (intro is_decimal_pieces)
  have cs': "cs = (d1 @ dt @ d2) @ ws @ [deg, h] @ rest" unfolding cs ms by simp
  have g: "group1 ms = d1 @ dt @ d2" "group2 ms = [h]"
    unfolding ms by (simp_all add: group1_def group2_def)
  have "token_at H cs (d1 @ dt @ d2) h"
    unfolding token_at_def using cs' dec p(5,6) by blast
  with g show ?thesis by simp
qed

lemma token_at_unique:
  assumes "token_at H cs g h" "token_at H cs g' h'"
  shows "g = g' \<and> h = h'"
proof -
  have key: "g = takeWhile is_dd cs \<and> h = hd (tl (dropWhile is_space (dropWhile is_dd cs)))"
    if "token_at H cs g h" for g h
  proof -
    from that obtain ws rest where cs: "cs = g @ ws @ [deg, h] @ rest" and
      g: "is_decimal g" and ws: "list_all is_space ws"
      by (auto simp: token_at_def)
    have dd: "\<forall>x\<in>set g. is_dd x" using is_decimal_dd[OF g] by (simp add: list_all_iff)
    obtain a r where r: "ws @ [deg, h] @ rest = a # r" and nd: "\<not> is_dd a"
      using tail_starts_non_dd[OF ws] by blast
    have cs': "cs = g @ a # r" unfolding cs r ..
    have t: "takeWhile is_dd cs = g"
      unfolding cs' using dd nd by (rule takeWhile_run)
    have "dropWhile is_dd cs = a # r"
      unfolding cs' using dd nd by (rule dropWhile_run)
    then have d: "dropWhile is_dd cs = ws @ deg # h # rest" unfolding r[symmetric] by simp
    have "\<forall>x\<in>set ws. is_space x" using ws by (simp add: list_all_iff)
    then have "dropWhile is_space (ws @ deg # h # rest) = deg # h # rest"
      by (rule dropWhile_run) simp
    with t d show ?thesis by simp
  qed
  from key[OF assms(1)] key[OF assms(2)] show ?thesis by simp
qed

lemma token_match:
  assumes "token_at H cs g h"
  shows "\<exists>ms. match_here (coord_pattern H) cs = Some ms \<and> group1 ms = g \<and> group2 ms = [h]"
proof -
  from assms obtain ws rest where cs: "cs = g @ ws @ [deg, h] @ rest" and
    g: "is_decimal g" and ws: "list_all is_space ws" and h: "h \<in> set H"
    by (auto simp: token_at_def)
  from g obtain d1 dt d2 where d: "g = d1 @ dt @ d2" "d1 \<noteq> []" "list_all is_digit d1"
    "dt = [] \<or> dt = ''.''" "list_all is_digit d2"
    by (rule is_decimal_split)
  have "list_all2 piece_ok (coord_pattern H) [d1, dt, d2, ws, [deg], [h]]"
    unfolding coord_pieces
    by (intro exI[of _ d1] exI[of _ dt] exI[of _ d2] exI[of _ ws] exI[of _ h]) (simp add: d ws h)
  moreover have "cs = concat [d1, dt, d2, ws, [deg], [h]] @ rest" unfolding cs d(1) by simp
  ultimately have "match_here (coord_pattern H) cs \<noteq> None" by (rule match_here_complete)
  then obtain ms where ms: "match_here (coord_pattern H) cs = Some ms" by auto
  from match_here_token[OF ms] obtain h' where "group2 ms = [h']" "token_at H cs (group1 ms) h'"
    by auto
  with token_at_unique[OF assms this(2)] ms show ?thesis by auto
qed

lemma re_search_None_conv:
  "re_search its s = None \<longleftrightarrow> (\<forall>pre cs. s = pre @ cs \<longrightarrow> match_here its cs = None)"
proof (induction s)
  case Nil
  then show ?case by simp
next
  case (Cons x xs)
  show ?case
  proof (cases "match_here its (x # xs)")
    case None
    then show ?thesis using Cons by (auto simp: Cons_eq_append_conv)
  next
    case (Some ms)
    then have "re_search its (x # xs) \<noteq> None" by simp
    moreover have "x # xs = [] @ (x # xs)" by simp
    ultimately show ?thesis using Some by (metis option.distinct(1))
  qed
qed

lemma re_search_Some_match:
  "re_search its s = Some ms \<Longrightarrow> \<exists>pre cs. s = pre @ cs \<and> match_here its cs = Some ms"
proof (induction s)
  case Nil
  then show ?case by simp
next
  case (Cons x xs)
  show ?case
  proof (cases "match_here its (x # xs)")
    case None
    with Cons.prems have "re_search its xs = Some ms" by simp
    from Cons.IH[OF this] obtain pre cs where "xs = pre @ cs" "match_here its cs = Some ms" by blast
    then have "x # xs = (x # pre) @ cs" by simp
    with \<open>match_here its cs = Some ms\<close> show ?thesis by blast
  next
    case (Some a)
    with Cons.prems have "a = ms" by simp
    with Some have "x # xs = [] @ (x # xs) \<and> match_here its (x # xs) = Some ms" by simp
    then show ?thesis by blast
  qed
qed

lemma re_search_here:
  "match_here its T = Some ms \<Longrightarrow> re_search its T = Some ms"
  by (cases T) simp_all

lemma re_search_skip:
  "(\<And>p q. pre = p @ q \<Longrightarrow> q \<noteq> [] \<Longrightarrow> match_here its (q @ T) = None)
   \<Longrightarrow> re_search its (pre @ T) = re_search its T"
proof (induction pre)
  case Nil
  then show ?case by simp
next
  case (Cons x pre)
  have "match_here its ((x # pre) @ T) = None"
    using Cons.prems[of "[]" "x # pre"] by simp
  moreover have "re_search its (pre @ T) = re_search its T"
  proof (rule Cons.IH)
    fix p q assume "pre = p @ q" "q \<noteq> []"
    then show "match_here its (q @ T) = None" using Cons.prems[of "x # p" q] by simp
  qed
  ultimately show ?case by simp
qed

lemma re_search_None_iff:
  "re_search (coord_pattern H) s = None \<longleftrightarrow> \<not> has_token H s"
proof
  assume n: "re_search (coord_pattern H) s = None"
  show "\<not> has_token H s"
  proof
    assume "has_token H s"
    then obtain pre cs g h where s: "s = pre @ cs" and t: "token_at H cs g h"
      by (auto simp: has_token_def)
    from token_match[OF t] obtain ms where "match_here (coord_pattern H) cs = Some ms" by blast
    moreover from n s have "match_here (coord_pattern H) cs = None"
      unfolding re_search_None_conv by blast
    ultimately show False by simp
  qed
next
  assume n: "\<not> has_token H s"
  show "re_search (coord_pattern H) s = None"
    unfolding re_search_None_conv
  proof (intro allI impI)
    fix pre cs assume s: "s = pre @ cs"
    show "match_here (coord_pattern H) cs = None"
    proof (cases "match_here (coord_pattern H) cs")
      case (Some ms)
      from match_here_token[OF Some] obtain h where "token_at H cs (group1 ms) h" by blast
      with s n show ?thesis unfolding has_token_def by blast
    qed simp
  qed
qed

lemma has_mark_append: "h \<in> set H \<Longrightarrow> has_mark H (xs @ deg # h # ys)"
  by (induction H xs rule: has_mark.induct) auto

lemma has_mark_suffix: "has_mark H q \<Longrightarrow> has_mark H (p @ q)"
proof (induction p)
  case (Cons x p)
  then show ?case by (cases "p @ q") auto
qed simp

lemma no_token_in_pre:
  assumes q: "q \<noteq> []" "\<not> is_dd (last q)" "\<not> has_mark H q"
    and T: "T = d # T'" "is_digit d" and H: "\<forall>h\<in>set H. \<not> is_digit h"
  shows "\<not> token_at H (q @ T) g h"
proof
  assume "token_at H (q @ T) g h"
  then obtain ws rest where eq: "q @ T = g @ ws @ [deg, h] @ rest" and
    g: "is_decimal g" and ws: "list_all is_space ws" and h: "h \<in> set H"
    by (auto simp: token_at_def)
  have dd: "\<forall>x\<in>set g. is_dd x" using is_decimal_dd[OF g] by (simp add: list_all_iff)
  have sp: "\<forall>x\<in>set ws. is_space x" using ws by (simp add: list_all_iff)
  from eq have "q @ T = (g @ ws) @ (deg # h # rest)" by simp
  then obtain us where "(q = (g @ ws) @ us \<and> us @ T = deg # h # rest) \<or>
      (q @ us = g @ ws \<and> T = us @ deg # h # rest)"
    unfolding append_eq_append_conv2 by blast
  then show False
  proof
    assume a: "q = (g @ ws) @ us \<and> us @ T = deg # h # rest"
    show False
    proof (cases us)
      case Nil
      with a T show False by simp
    next
      case (Cons u us')
      show False
      proof (cases us')
        case Nil
        with a Cons T h H show False by auto
      next
        case (Cons u' us'')
        with a \<open>us = u # us'\<close> have "q = (g @ ws) @ deg # h # us''" by simp
        with has_mark_append[OF h, of "g @ ws" us''] q(3) show False by simp
      qed
    qed
  next
    assume b: "q @ us = g @ ws \<and> T = us @ deg # h # rest"
    show False
    proof (cases us)
      case Nil
      with b T show False by simp
    next
      case (Cons u us')
      with b T have u: "u = d" by simp
      from b obtain vs where "(q = g @ vs \<and> vs @ us = ws) \<or> (q @ vs = g \<and> us = vs @ ws)"
        unfolding append_eq_append_conv2 by blast
      then show False
      proof
        assume "q = g @ vs \<and> vs @ us = ws"
        then have "u \<in> set ws" using Cons by auto
        with sp u T digit_not_space show False by blast
      next
        assume "q @ vs = g \<and> us = vs @ ws"
        then have "last q \<in> set g" using q(1) by auto
        with dd q(2) show False by blast
      qed
    qed
  qed
qed

lemma re_search_leftmost:
  assumes f: "first_token H pre T" and t: "token_at H T g h"
  shows "\<exists>ms. re_search (coord_pattern H) (pre @ T) = Some ms \<and> group1 ms = g \<and> group2 ms = [h]"
proof -
  have "re_search (coord_pattern H) (pre @ T) = re_search (coord_pattern H) T"
  proof (rule re_search_skip)
    fix p q assume pq: "pre = p @ q" "q \<noteq> []"
    with f have nt: "\<And>g h. \<not> token_at H (q @ T) g h" unfolding first_token_def by blast
    show "match_here (coord_pattern H) (q @ T) = None"
    proof (cases "match_here (coord_pattern H) (q @ T)")
      case (Some ms)
      from match_here_token[OF Some] nt show ?thesis by blast
    qed simp
  qed
  moreover from token_match[OF t] obtain ms where
    "match_here (coord_pattern H) T = Some ms" "group1 ms = g" "group2 ms = [h]" by blast
  ultimately show ?thesis using re_search_here by auto
qed

lemma delimited_first_token:
  assumes d: "delimited H pre" and T: "T = dg # T'" "is_digit dg"
    and H: "\<forall>h\<in>set H. \<not> is_digit h"
  shows "first_token H pre T"
  unfolding first_token_def
proof (intro allI impI)
  fix p q g h assume pq: "pre = p @ q \<and> q \<noteq> []"
  with d have "\<not> is_dd (last q)" "\<not> has_mark H q"
    using has_mark_suffix[of H q p] by (auto simp: delimited_def)
  from no_token_in_pre[OF _ this T H] pq show "\<not> token_at H (q @ T) g h" by blast
qed

lemma re_search_Some_leftmost:
  "re_search its s = Some ms \<Longrightarrow>
     \<exists>pre cs. s = pre @ cs \<and> match_here its cs = Some ms \<and>
       (\<forall>p q. pre = p @ q \<and> q \<noteq> [] \<longrightarrow> match_here its (q @ cs) = None)"
proof (induction s)
  case Nil
  then have m: "match_here its [] = Some ms" by simp
  have "\<forall>p q. ([]::string) = p @ q \<and> q \<noteq> [] \<longrightarrow> match_here its (q @ []) = None" by simp
  with m show ?case by (intro exI[of _ "[]"]) simp
next
  case (Cons x xs)
  show ?case
  proof (cases "match_here its (x # xs)")
    case None
    with Cons.prems have "re_search its xs = Some ms" by simp
    from Cons.IH[OF this] obtain pre cs where pc: "xs = pre @ cs" "match_here its cs = Some ms"
      "\<forall>p q. pre = p @ q \<and> q \<noteq> [] \<longrightarrow> match_here its (q @ cs) = None" by blast
    have "match_here its (q @ cs) = None" if "x # pre = p @ q" "q \<noteq> []" for p q
    proof (cases p)
      case Nil
      with that have "q = x # pre" by simp
      with pc(1) None show ?thesis by simp
    next
      case (Cons y p')
      with that have "pre = p' @ q" by simp
      with pc(3) that(2) show ?thesis by blast
    qed
    then have "\<forall>p q. x # pre = p @ q \<and> q \<noteq> [] \<longrightarrow> match_here its (q @ cs) = None"
      by blast
    with pc(1,2) show ?thesis by (intro exI[of _ "x # pre"] exI[of _ cs]) simp
  next
    case (Some a)
    with Cons.prems have "a = ms" by simp
    with Some have m: "match_here its (x # xs) = Some ms" by simp
    have "\<forall>p q. ([]::string) = p @ q \<and> q \<noteq> [] \<longrightarrow> match_here its (q @ (x # xs)) = None" by simp
    with m show ?thesis by (intro exI[of _ "[]"] exI[of _ "x # xs"]) simp
  qed
qed

lemma has_token_first:
  assumes "has_token H s"
  shows "\<exists>pre T g h. s = pre @ T \<and> token_at H T g h \<and> first_token H pre T"
proof -
  from assms re_search_None_iff[of H s] obtain ms where
    "re_search (coord_pattern H) s = Some ms" by auto
  from re_search_Some_leftmost[OF this] obtain pre cs where pc: "s = pre @ cs"
    "match_here (coord_pattern H) cs = Some ms"
    "\<forall>p q. pre = p @ q \<and> q \<noteq> [] \<longrightarrow> match_here (coord_pattern H) (q @ cs) = None" by blast
  from match_here_token[OF pc(2)] obtain h where t: "token_at H cs (group1 ms) h" by blast
  have "first_token H pre cs"
    unfolding first_token_def
  proof (intro allI impI notI)
    fix p q g h assume "pre = p @ q \<and> q \<noteq> []" and tk: "token_at H (q @ cs) g h"
    with pc(3) have "match_here (coord_pattern H) (q @ cs) = None" by blast
    with token_match[OF tk] show False by auto
  qed
  with pc(1) t show ?thesis by blast
qed

section \<open>Properties of the coordinate parser\<close>

lemma re_search_token:
  assumes "re_search (coord_pattern H) s = Some ms"
  shows "\<exists>h. group2 ms = [h] \<and> h \<in> set H \<and> is_decimal (group1 ms)"
proof -
  from re_search_Some_match[OF assms] obtain pre cs where
    "match_here (coord_pattern H) cs = Some ms" by blast
  from match_here_token[OF this] show ?thesis by (auto simp: token_at_def)
qed

lemma parse_of_matches:
  assumes "re_search (coord_pattern ''NS'') s = Some lm" "re_search (coord_pattern ''EW'') s = Some gm"
  shows "parse_coordinate_string s =
           Inr (if group2 lm = ''S'' then - decimal_value (group1 lm) else decimal_value (group1 lm),
                if group2 gm = ''W'' then - decimal_value (group1 gm) else decimal_value (group1 gm))"
proof -
  from re_search_token[OF assms(1)] have "is_decimal (group1 lm)" by blast
  moreover from re_search_token[OF assms(2)] have "is_decimal (group1 gm)" by blast
  ultimately show ?thesis using assms
    by (simp add: parse_coordinate_string_def float_py_def)
qed

lemma parse_cases:
  "(\<exists>lm gm. re_search (coord_pattern ''NS'') s = Some lm \<and> re_search (coord_pattern ''EW'') s = Some gm)
   \<or> ((re_search (coord_pattern ''NS'') s = None \<or> re_search (coord_pattern ''EW'') s = None)
       \<and> parse_coordinate_string s = Inl (ParseError s))"
  by (cases "re_search (coord_pattern ''NS'') s"; cases "re_search (coord_pattern ''EW'') s")
     (simp_all add: parse_coordinate_string_def)

text \<open>
  C8: the parser raises exactly when the text has no latitude token or no longitude token,
  and the error it raises is then the \<open>ParseError\<close> that carries the raw string. A token
  whose magnitude is not a number is no token, and the conversion of a matched magnitude
  never fails, so there is no other error and no default value: with both tokens present
  the parser returns a pair.
\<close>

theorem parse_error_iff:
  "(parse_coordinate_string s = Inl (ParseError s) \<longleftrightarrow>
      \<not> has_token ''NS'' s \<or> \<not> has_token ''EW'' s) \<and>
   (\<forall>e. parse_coordinate_string s = Inl e \<longrightarrow> e = ParseError s) \<and>
   (has_token ''NS'' s \<and> has_token ''EW'' s \<longrightarrow>
      (\<exists>lat lon. parse_coordinate_string s = Inr (lat, lon)))"
proof -
  have ok: "\<exists>lat lon. parse_coordinate_string s = Inr (lat, lon)"
    if "has_token ''NS'' s" "has_token ''EW'' s"
  proof -
    from that obtain lm gm where "re_search (coord_pattern ''NS'') s = Some lm"
      "re_search (coord_pattern ''EW'') s = Some gm"
      using re_search_None_iff[of "''NS''" s] re_search_None_iff[of "''EW''" s] by auto
    from parse_of_matches[OF this] show ?thesis by blast
  qed
  have err: "parse_coordinate_string s = Inl (ParseError s)"
    if "\<not> has_token ''NS'' s \<or> \<not> has_token ''EW'' s"
    using that parse_cases[of s] re_search_None_iff[of "''NS''" s] re_search_None_iff[of "''EW''" s]
    by auto
  show ?thesis
  proof (intro conjI allI impI)
    show "parse_coordinate_string s = Inl (ParseError s) \<longleftrightarrow>
      \<not> has_token ''NS'' s \<or> \<not> has_token ''EW'' s"
      using ok err by fastforce
    show "e = ParseError s" if "parse_coordinate_string s = Inl e" for e
      using that ok err by (cases "has_token ''NS'' s \<and> has_token ''EW'' s") auto
    show "\<exists>lat lon. parse_coordinate_string s = Inr (lat, lon)"
      if "has_token ''NS'' s \<and> has_token ''EW'' s"
      using that ok by blast
  qed
qed

text \<open>A string with no degree sign is rejected with its own text; one with both tokens is accepted.\<close>

theorem parse_error_iff_witness:
  "\<not> has_token ''NS'' ''Varanasi 25.32 N'' \<and>
   parse_coordinate_string ''Varanasi 25.32 N'' = Inl (ParseError ''Varanasi 25.32 N'') \<and>
   has_token ''NS'' (''5'' @ [deg] @ ''N 7.5 '' @ [deg] @ ''W'') \<and>
   has_token ''EW'' (''5'' @ [deg] @ ''N 7.5 '' @ [deg] @ ''W'') \<and>
   (\<exists>lat lon. parse_coordinate_string (''5'' @ [deg] @ ''N 7.5 '' @ [deg] @ ''W'') = Inr (lat, lon))"
proof -
  let ?t = "''Varanasi 25.32 N''"
  let ?s = "''5'' @ [deg] @ ''N 7.5 '' @ [deg] @ ''W''"
  have a: "re_search (coord_pattern ''NS'') ?t = None" by code_simp
  have b: "re_search (coord_pattern ''NS'') ?s \<noteq> None" by code_simp
  have c: "re_search (coord_pattern ''EW'') ?s \<noteq> None" by code_simp
  have na: "\<not> has_token ''NS'' ?t"
    using a unfolding re_search_None_iff[of "''NS''" ?t] .
  have hb: "has_token ''NS'' ?s"
    using b unfolding re_search_None_iff[of "''NS''" ?s] by simp
  have hc: "has_token ''EW'' ?s"
    using c unfolding re_search_None_iff[of "''EW''" ?s] by simp
  from na hb hc parse_error_iff[of ?t] parse_error_iff[of ?s]
  show ?thesis by blast
qed

text \<open>
  C4: a string with a latitude token \<open>m1 ws1 \<degree> h1\<close> and a longitude token
  \<open>m2 ws2 \<degree> h2\<close>, each the first token of its kind in the string, in either order and
  with any text before, between and after them, parses to the magnitude of \<open>m1\<close>,
  negated for \<open>S\<close>, and the magnitude of \<open>m2\<close>, negated for \<open>W\<close>. By \<open>has_token_first\<close>
  every string with a token of a kind has a first one, so this covers every string with
  both tokens.
\<close>

theorem parse_signed_tokens:
  assumes "coord_str = pre1 @ m1 @ ws1 @ [deg, h1] @ post1"
    and "is_decimal m1" "list_all is_space ws1" "h1 = CHR ''N'' \<or> h1 = CHR ''S''"
    and "first_token ''NS'' pre1 (m1 @ ws1 @ [deg, h1] @ post1)"
    and "coord_str = pre2 @ m2 @ ws2 @ [deg, h2] @ post2"
    and "is_decimal m2" "list_all is_space ws2" "h2 = CHR ''E'' \<or> h2 = CHR ''W''"
    and "first_token ''EW'' pre2 (m2 @ ws2 @ [deg, h2] @ post2)"
  shows "parse_coordinate_string coord_str =
           Inr (if h1 = CHR ''S'' then - decimal_value m1 else decimal_value m1,
                if h2 = CHR ''W'' then - decimal_value m2 else decimal_value m2)"
proof -
  have t1: "token_at ''NS'' (m1 @ ws1 @ [deg, h1] @ post1) m1 h1"
    unfolding token_at_def using assms(2-4) by auto
  have t2: "token_at ''EW'' (m2 @ ws2 @ [deg, h2] @ post2) m2 h2"
    unfolding token_at_def using assms(7-9) by auto
  from re_search_leftmost[OF assms(5) t1] obtain lm where
    lm: "re_search (coord_pattern ''NS'') coord_str = Some lm" "group1 lm = m1" "group2 lm = [h1]"
    unfolding assms(1) by blast
  from re_search_leftmost[OF assms(10) t2] obtain gm where
    gm: "re_search (coord_pattern ''EW'') coord_str = Some gm" "group1 gm = m2" "group2 gm = [h2]"
    unfolding assms(6) by blast
  show ?thesis unfolding parse_of_matches[OF lm(1) gm(1)] lm(2,3) gm(2,3) by simp
qed

lemma first_token_lat:
  "delimited ''NS'' pre \<Longrightarrow> is_decimal m \<Longrightarrow> first_token ''NS'' pre (m @ rest)"
  using is_decimal_hd[of m] is_decimal_nonempty[of m]
  by (cases m) (auto intro!: delimited_first_token simp: is_digit_def)

lemma first_token_lon:
  "delimited ''EW'' pre \<Longrightarrow> is_decimal m \<Longrightarrow> first_token ''EW'' pre (m @ rest)"
  using is_decimal_hd[of m] is_decimal_nonempty[of m]
  by (cases m) (auto intro!: delimited_first_token simp: is_digit_def)

text \<open>
  The two examples of the specification, and one with the longitude first inside a
  longer description.
\<close>

theorem parse_signed_tokens_witness:
  "parse_coordinate_string (''25.32 '' @ [deg] @ ''N 83.01 '' @ [deg] @ ''E'')
     = Inr (2532 / 100, 8301 / 100) \<and>
   parse_coordinate_string (''10.0 '' @ [deg] @ ''S 20.0 '' @ [deg] @ ''W'') = Inr (- 10, - 20) \<and>
   parse_coordinate_string (''Intake near 20.0'' @ [deg] @ ''W, 10.0 '' @ [deg] @ ''S (approx.)'')
     = Inr (- 10, - 20)"
proof -
  have d: "is_decimal ''25.32''" "is_decimal ''83.01''" "is_decimal ''10.0''" "is_decimal ''20.0''"
    by code_simp+
  have v: "decimal_value ''25.32'' = 2532 / 100" "decimal_value ''83.01'' = 8301 / 100"
    "decimal_value ''10.0'' = 10" "decimal_value ''20.0'' = 20"
    by code_simp+
  have sp: "list_all is_space '' ''" "list_all is_space []" by code_simp+
  have p1: "delimited ''NS'' []" "delimited ''EW'' (''25.32 '' @ [deg] @ ''N '')"
    by code_simp+
  have p2: "delimited ''EW'' (''10.0 '' @ [deg] @ ''S '')"
    by code_simp
  have p3: "delimited ''NS'' (''Intake near 20.0'' @ [deg] @ ''W, '')" "delimited ''EW'' ''Intake near ''"
    by code_simp+
  have a: "parse_coordinate_string (''25.32 '' @ [deg] @ ''N 83.01 '' @ [deg] @ ''E'')
     = Inr (2532 / 100, 8301 / 100)"
    using parse_signed_tokens[of "''25.32 '' @ [deg] @ ''N 83.01 '' @ [deg] @ ''E''"
        "[]" "''25.32''" "'' ''" "CHR ''N''" "'' 83.01 '' @ [deg] @ ''E''"
        "''25.32 '' @ [deg] @ ''N ''" "''83.01''" "'' ''" "CHR ''E''" "[]"]
      first_token_lat[OF p1(1) d(1)] first_token_lon[OF p1(2) d(2)] d v sp
    by simp
  have b: "parse_coordinate_string (''10.0 '' @ [deg] @ ''S 20.0 '' @ [deg] @ ''W'') = Inr (- 10, - 20)"
    using parse_signed_tokens[of "''10.0 '' @ [deg] @ ''S 20.0 '' @ [deg] @ ''W''"
        "[]" "''10.0''" "'' ''" "CHR ''S''" "'' 20.0 '' @ [deg] @ ''W''"
        "''10.0 '' @ [deg] @ ''S ''" "''20.0''" "'' ''" "CHR ''W''" "[]"]
      first_token_lat[OF p1(1) d(3)] first_token_lon[OF p2 d(4)] d v sp
    by simp
  have c: "parse_coordinate_string (''Intake near 20.0'' @ [deg] @ ''W, 10.0 '' @ [deg] @ ''S (approx.)'')
     = Inr (- 10, - 20)"
    using parse_signed_tokens[of "''Intake near 20.0'' @ [deg] @ ''W, 10.0 '' @ [deg] @ ''S (approx.)''"
        "''Intake near 20.0'' @ [deg] @ ''W, ''" "''10.0''" "'' ''" "CHR ''S''" "'' (approx.)''"
        "''Intake near ''" "''20.0''" "[]" "CHR ''W''" "'', 10.0 '' @ [deg] @ ''S (approx.)''"]
      first_token_lat[OF p3(1) d(3)] first_token_lon[OF p3(2) d(4)] d v sp
    by simp
  from a b c show ?thesis by blast
qed









section \<open>Properties of the basin lookup\<close>

lemma argmin_scan_spec:
  assumes "length pre = i" "best < i" "v = (pre @ ds) ! best"
    "\<forall>j<i. v \<le> (pre @ ds) ! j" "\<forall>j<best. v < (pre @ ds) ! j"
  shows "argmin_scan best v i ds < length (pre @ ds) \<and>
         (\<forall>j<length (pre @ ds). (pre @ ds) ! argmin_scan best v i ds \<le> (pre @ ds) ! j) \<and>
         (\<forall>j<argmin_scan best v i ds. (pre @ ds) ! argmin_scan best v i ds < (pre @ ds) ! j)"
  using assms
proof (induction ds arbitrary: pre i best v)
  case Nil
  then show ?case by simp
next
  case (Cons d ds)
  have xs: "pre @ d # ds = (pre @ [d]) @ ds" by simp
  have di: "(pre @ d # ds) ! i = d" using Cons.prems(1) by (simp add: nth_append)
  show ?case
  proof (cases "d < v")
    case True
    have "argmin_scan i d (Suc i) ds < length ((pre @ [d]) @ ds) \<and>
         (\<forall>j<length ((pre @ [d]) @ ds). ((pre @ [d]) @ ds) ! argmin_scan i d (Suc i) ds \<le> ((pre @ [d]) @ ds) ! j) \<and>
         (\<forall>j<argmin_scan i d (Suc i) ds. ((pre @ [d]) @ ds) ! argmin_scan i d (Suc i) ds < ((pre @ [d]) @ ds) ! j)"
    proof (rule Cons.IH)
      show "length (pre @ [d]) = Suc i" using Cons.prems(1) by simp
      show "i < Suc i" by simp
      show "d = ((pre @ [d]) @ ds) ! i" using di by simp
      show "\<forall>j<Suc i. d \<le> ((pre @ [d]) @ ds) ! j"
        using Cons.prems(4) True di by (auto simp: less_Suc_eq)
      show "\<forall>j<i. d < ((pre @ [d]) @ ds) ! j"
        using Cons.prems(4) True by auto
    qed
    with True show ?thesis by simp
  next
    case False
    have "argmin_scan best v (Suc i) ds < length ((pre @ [d]) @ ds) \<and>
         (\<forall>j<length ((pre @ [d]) @ ds). ((pre @ [d]) @ ds) ! argmin_scan best v (Suc i) ds \<le> ((pre @ [d]) @ ds) ! j) \<and>
         (\<forall>j<argmin_scan best v (Suc i) ds. ((pre @ [d]) @ ds) ! argmin_scan best v (Suc i) ds < ((pre @ [d]) @ ds) ! j)"
    proof (rule Cons.IH)
      show "length (pre @ [d]) = Suc i" using Cons.prems(1) by simp
      show "best < Suc i" using Cons.prems(2) by simp
      show "v = ((pre @ [d]) @ ds) ! best" using Cons.prems(3) by simp
      show "\<forall>j<Suc i. v \<le> ((pre @ [d]) @ ds) ! j"
        using Cons.prems(4) False di by (auto simp: less_Suc_eq)
      show "\<forall>j<best. v < ((pre @ [d]) @ ds) ! j"
        using Cons.prems(5) by simp
    qed
    with False show ?thesis by simp
  qed
qed

lemma idxmin_spec:
  assumes "idxmin ds = Inr r"
  shows "r < length ds \<and> (\<forall>j<length ds. ds ! r \<le> ds ! j) \<and> (\<forall>j<r. ds ! r < ds ! j)"
proof (cases ds)
  case Nil
  with assms show ?thesis by simp
next
  case (Cons d ds')
  with assms have r: "r = argmin_scan 0 d 1 ds'" by simp
  from argmin_scan_spec[of "[d]" 1 0 d ds'] show ?thesis unfolding r Cons by simp
qed

lemma idxmin_Inl: "idxmin ds = Inl e \<longleftrightarrow> ds = [] \<and> e = NoBasinDataError"
  by (cases ds) auto

lemma filter_first:
  assumes "i < length xs" "P (xs ! i)" "\<forall>j<i. \<not> P (xs ! j)"
  shows "\<exists>rest. filter P xs = xs ! i # rest"
proof -
  have "filter P (take i xs) = []"
    using assms(1,3) by (auto simp: filter_empty_conv in_set_conv_nth)
  moreover have "xs = take i xs @ xs ! i # drop (Suc i) xs"
    using assms(1) by (rule id_take_nth_drop)
  ultimately have "filter P xs = filter P (xs ! i # drop (Suc i) xs)"
    by (metis append_Nil filter_append)
  with assms(2) show ?thesis by simp
qed

lemma first_index:
  assumes "\<exists>x\<in>set xs. P x"
  shows "\<exists>i<length xs. P (xs ! i) \<and> (\<forall>j<i. \<not> P (xs ! j))"
proof -
  from assms obtain k where k: "k < length xs \<and> P (xs ! k)" by (auto simp: in_set_conv_nth)
  define i where "i = (LEAST k. k < length xs \<and> P (xs ! k))"
  have "i < length xs \<and> P (xs ! i)" unfolding i_def using k by (rule LeastI)
  moreover have "\<not> P (xs ! j)" if "j < i" for j
  proof
    assume "P (xs ! j)"
    with that calculation have "j < length xs \<and> P (xs ! j)" by simp
    then have "i \<le> j" unfolding i_def by (rule Least_le)
    with that show False by simp
  qed
  ultimately show ?thesis by blast
qed

lemma find_basin_containing:
  assumes "i < length basins_gdf" "contains (geometry (basins_gdf ! i)) (Point lon lat)"
    "\<forall>j<i. \<not> contains (geometry (basins_gdf ! j)) (Point lon lat)"
  shows "find_basin_by_coordinates contains distance lat lon basins_gdf
           = (Inr (BasinName (basins_gdf ! i)), [])"
proof -
  from filter_first[of i basins_gdf "\<lambda>b. contains (geometry b) (Point lon lat)", OF assms]
  obtain rest where
    "filter (\<lambda>b. contains (geometry b) (Point lon lat)) basins_gdf = basins_gdf ! i # rest"
    by blast
  then show ?thesis by (simp add: find_basin_by_coordinates_def iloc_def)
qed

lemma find_basin_nearest:
  assumes "basins_gdf \<noteq> []" "\<forall>b\<in>set basins_gdf. \<not> contains (geometry b) (Point lon lat)"
  shows "\<exists>r. idxmin (map (\<lambda>b. distance (geometry b) (Point lon lat)) basins_gdf) = Inr r \<and>
           r < length basins_gdf \<and>
           find_basin_by_coordinates contains distance lat lon basins_gdf
             = (Inr (BasinName (basins_gdf ! r)),
                [NearestBasinWarning lat lon (BasinName (basins_gdf ! r))
                   (distance (geometry (basins_gdf ! r)) (Point lon lat))])"
proof -
  let ?ds = "map (\<lambda>b. distance (geometry b) (Point lon lat)) basins_gdf"
  have f: "filter (\<lambda>b. contains (geometry b) (Point lon lat)) basins_gdf = []"
    using assms(2) by (simp add: filter_empty_conv)
  from assms(1) obtain r where r: "idxmin ?ds = Inr r" by (cases basins_gdf) auto
  from idxmin_spec[OF r] have lt: "r < length basins_gdf" by simp
  have "find_basin_by_coordinates contains distance lat lon basins_gdf
             = (Inr (BasinName (basins_gdf ! r)),
                [NearestBasinWarning lat lon (BasinName (basins_gdf ! r))
                   (distance (geometry (basins_gdf ! r)) (Point lon lat))])"
    using f r lt by (simp add: find_basin_by_coordinates_def iloc_def Let_def)
  with r lt show ?thesis by blast
qed



text \<open>
  C5: when some polygon contains the point, the lookup returns the name of the containing
  polygon that comes first in the order of the table, and prints nothing. In particular,
  when exactly one polygon contains the point, the result is its name.
\<close>

theorem first_containing_polygon:
  assumes "\<exists>b\<in>set basins_gdf. contains (geometry b) (Point lon lat)"
  shows "(\<exists>i<length basins_gdf.
            contains (geometry (basins_gdf ! i)) (Point lon lat) \<and>
            (\<forall>j<i. \<not> contains (geometry (basins_gdf ! j)) (Point lon lat)) \<and>
            find_basin_by_coordinates contains distance lat lon basins_gdf
              = (Inr (BasinName (basins_gdf ! i)), [])) \<and>
         (\<forall>k<length basins_gdf.
            contains (geometry (basins_gdf ! k)) (Point lon lat) \<and>
            (\<forall>j<length basins_gdf. j \<noteq> k \<longrightarrow>
               \<not> contains (geometry (basins_gdf ! j)) (Point lon lat)) \<longrightarrow>
            find_basin_by_coordinates contains distance lat lon basins_gdf
              = (Inr (BasinName (basins_gdf ! k)), []))"
proof -
  from first_index[OF assms] obtain i where i: "i < length basins_gdf"
    "contains (geometry (basins_gdf ! i)) (Point lon lat)"
    "\<forall>j<i. \<not> contains (geometry (basins_gdf ! j)) (Point lon lat)" by blast
  note r = find_basin_containing[where contains=contains and distance=distance, OF i]
  have "find_basin_by_coordinates contains distance lat lon basins_gdf
              = (Inr (BasinName (basins_gdf ! k)), [])"
    if "k < length basins_gdf" "contains (geometry (basins_gdf ! k)) (Point lon lat)"
      "\<forall>j<length basins_gdf. j \<noteq> k \<longrightarrow> \<not> contains (geometry (basins_gdf ! j)) (Point lon lat)"
    for k
  proof -
    from that(3) i(1,2) have "i = k" by blast
    with r show ?thesis by simp
  qed
  with i r show ?thesis by blast
qed

text \<open>
  Longitude 75 lies in the bands of the Indus and of the Ganges; the Indus comes first.
\<close>

theorem first_containing_polygon_witness:
  "(\<exists>i<length example_basins.
      band_contains (geometry (example_basins ! i)) (Point 75 10) \<and>
      (\<forall>j<i. \<not> band_contains (geometry (example_basins ! j)) (Point 75 10)) \<and>
      find_basin_by_coordinates band_contains band_distance 10 75 example_basins
        = (Inr (BasinName (example_basins ! i)), [])) \<and>
   find_basin_by_coordinates band_contains band_distance 10 75 example_basins = (Inr ''Indus'', [])"
proof -
  have "\<exists>b\<in>set example_basins. band_contains (geometry b) (Point 75 10)"
    by (simp add: example_basins_def band_contains_def Point_def)
  from first_containing_polygon[where contains=band_contains and distance=band_distance, OF this]
  have a: "\<exists>i<length example_basins.
      band_contains (geometry (example_basins ! i)) (Point 75 10) \<and>
      (\<forall>j<i. \<not> band_contains (geometry (example_basins ! j)) (Point 75 10)) \<and>
      find_basin_by_coordinates band_contains band_distance 10 75 example_basins
        = (Inr (BasinName (example_basins ! i)), [])" by blast
  have "find_basin_by_coordinates band_contains band_distance 10 75 example_basins = (Inr ''Indus'', [])"
    by code_simp
  with a show ?thesis by blast
qed

text \<open>
  C6: when the table is not empty and no polygon contains the point, the lookup succeeds
  with the name of a polygon whose distance to the point is least, and prints one warning
  that carries the point, that name and that distance.
\<close>

theorem nearest_polygon_fallback:
  assumes "basins_gdf \<noteq> []" "\<forall>b\<in>set basins_gdf. \<not> contains (geometry b) (Point lon lat)"
  shows "\<exists>i<length basins_gdf.
           (\<forall>j<length basins_gdf.
              distance (geometry (basins_gdf ! i)) (Point lon lat)
                \<le> distance (geometry (basins_gdf ! j)) (Point lon lat)) \<and>
           find_basin_by_coordinates contains distance lat lon basins_gdf
             = (Inr (BasinName (basins_gdf ! i)),
                [NearestBasinWarning lat lon (BasinName (basins_gdf ! i))
                   (distance (geometry (basins_gdf ! i)) (Point lon lat))])"
proof -
  from find_basin_nearest[where contains=contains and distance=distance, OF assms]
  obtain r where
    r: "idxmin (map (\<lambda>b. distance (geometry b) (Point lon lat)) basins_gdf) = Inr r"
      "r < length basins_gdf"
      "find_basin_by_coordinates contains distance lat lon basins_gdf
             = (Inr (BasinName (basins_gdf ! r)),
                [NearestBasinWarning lat lon (BasinName (basins_gdf ! r))
                   (distance (geometry (basins_gdf ! r)) (Point lon lat))])" by blast
  from idxmin_spec[OF r(1)] r(2) have
    "\<forall>j<length basins_gdf. distance (geometry (basins_gdf ! r)) (Point lon lat)
                \<le> distance (geometry (basins_gdf ! j)) (Point lon lat)" by simp
  with r(2,3) show ?thesis by blast
qed

text \<open>Longitude 95 lies east of every band; the Ganges is nearest, at distance 5.\<close>

theorem nearest_polygon_fallback_witness:
  "(\<exists>i<length example_basins.
           (\<forall>j<length example_basins.
              band_distance (geometry (example_basins ! i)) (Point 95 10)
                \<le> band_distance (geometry (example_basins ! j)) (Point 95 10)) \<and>
           find_basin_by_coordinates band_contains band_distance 10 95 example_basins
             = (Inr (BasinName (example_basins ! i)),
                [NearestBasinWarning 10 95 (BasinName (example_basins ! i))
                   (band_distance (geometry (example_basins ! i)) (Point 95 10))])) \<and>
   find_basin_by_coordinates band_contains band_distance 10 95 example_basins
     = (Inr ''Ganges'', [NearestBasinWarning 10 95 ''Ganges'' 5])"
proof -
  have a: "example_basins \<noteq> []" by (simp add: example_basins_def)
  have b: "\<forall>b\<in>set example_basins. \<not> band_contains (geometry b) (Point 95 10)"
    by (simp add: example_basins_def band_contains_def Point_def)
  have "find_basin_by_coordinates band_contains band_distance 10 95 example_basins
     = (Inr ''Ganges'', [NearestBasinWarning 10 95 ''Ganges'' 5])"
    by code_simp
  with nearest_polygon_fallback[where contains=band_contains and distance=band_distance, OF a b]
  show ?thesis by blast
qed

text \<open>
  C10: in the fallback, the polygon returned is the first in the order of the table among
  those at the least distance: a polygon at the least distance that no earlier polygon
  equals in distance is the one returned.
\<close>

theorem nearest_tie_first_in_order:
  assumes "\<forall>b\<in>set basins_gdf. \<not> contains (geometry b) (Point lon lat)"
    and "i < length basins_gdf"
    and "\<forall>j<length basins_gdf.
           distance (geometry (basins_gdf ! i)) (Point lon lat)
             \<le> distance (geometry (basins_gdf ! j)) (Point lon lat)"
    and "\<forall>j<i. distance (geometry (basins_gdf ! j)) (Point lon lat)
                  \<noteq> distance (geometry (basins_gdf ! i)) (Point lon lat)"
  shows "fst (find_basin_by_coordinates contains distance lat lon basins_gdf)
           = Inr (BasinName (basins_gdf ! i))"
proof -
  from assms(2) have ne: "basins_gdf \<noteq> []" by auto
  from find_basin_nearest[where contains=contains and distance=distance, OF ne assms(1)]
  obtain r where
    r: "idxmin (map (\<lambda>b. distance (geometry b) (Point lon lat)) basins_gdf) = Inr r"
      "r < length basins_gdf"
      "find_basin_by_coordinates contains distance lat lon basins_gdf
             = (Inr (BasinName (basins_gdf ! r)),
                [NearestBasinWarning lat lon (BasinName (basins_gdf ! r))
                   (distance (geometry (basins_gdf ! r)) (Point lon lat))])" by blast
  let ?d = "\<lambda>k. distance (geometry (basins_gdf ! k)) (Point lon lat)"
  from idxmin_spec[OF r(1)] r(2) have
    m: "\<forall>j<length basins_gdf. ?d r \<le> ?d j" and f: "\<forall>j<r. ?d r < ?d j" by simp_all
  have eq: "?d r = ?d i" using m assms(2,3) r(2) by (meson order_antisym)
  have "r = i"
  proof (rule ccontr)
    assume "r \<noteq> i"
    then consider "r < i" | "i < r" by linarith
    then show False
    proof cases
      case 1
      with assms(4) eq show False by simp
    next
      case 2
      with f eq show False by force
    qed
  qed
  with r(3) show ?thesis by simp
qed

text \<open>
  Longitude 53 is at distance 13 from the Nile and from the Indus; the Nile comes first.
\<close>

theorem nearest_tie_first_in_order_witness:
  "fst (find_basin_by_coordinates band_contains band_distance 10 53 example_basins)
     = Inr (BasinName (example_basins ! 0)) \<and>
   BasinName (example_basins ! 0) = ''Nile'' \<and>
   band_distance (geometry (example_basins ! 0)) (Point 53 10) = 13 \<and>
   band_distance (geometry (example_basins ! 1)) (Point 53 10) = 13"
proof -
  have a: "\<forall>b\<in>set example_basins. \<not> band_contains (geometry b) (Point 53 10)"
    by (simp add: example_basins_def band_contains_def Point_def)
  have b: "0 < length example_basins" by (simp add: example_basins_def)
  have c: "\<forall>j<length example_basins.
           band_distance (geometry (example_basins ! 0)) (Point 53 10)
             \<le> band_distance (geometry (example_basins ! j)) (Point 53 10)"
    by (simp add: example_basins_def band_distance_def Point_def less_Suc_eq eval_nat_numeral)
  have d: "\<forall>j<0::nat. band_distance (geometry (example_basins ! j)) (Point 53 10)
                  \<noteq> band_distance (geometry (example_basins ! 0)) (Point 53 10)"
    by simp
  have e: "BasinName (example_basins ! 0) = ''Nile''"
    "band_distance (geometry (example_basins ! 0)) (Point 53 10) = 13"
    "band_distance (geometry (example_basins ! 1)) (Point 53 10) = 13"
    by (simp_all add: example_basins_def band_distance_def Point_def)
  from nearest_tie_first_in_order[where contains=band_contains and distance=band_distance,
      OF a b c d] e
  show ?thesis by simp
qed

section \<open>Properties of the diversity counts\<close>

lemma unique_from_set: "set (unique_from seen xs) = set xs - set seen"
  by (induction xs arbitrary: seen) auto

lemma unique_from_distinct: "distinct (unique_from seen xs)"
  by (induction xs arbitrary: seen) (auto simp: unique_from_set)

lemma set_unique [simp]: "set (unique xs) = set xs"
  by (simp add: unique_def unique_from_set)

lemma distinct_unique [simp]: "distinct (unique xs)"
  by (simp add: unique_def unique_from_distinct)

lemma nunique_card: "nunique xs = card (set xs)"
  using distinct_card[OF distinct_unique, of xs] by (simp add: nunique_def)

lemma nunique_map_filter:
  "nunique (map f (filter P xs)) = card {f r | r. r \<in> set xs \<and> P r}"
proof -
  have "set (map f (filter P xs)) = {f r | r. r \<in> set xs \<and> P r}" by auto
  then show ?thesis by (simp add: nunique_card)
qed

lemma diversity_fields:
  "species_count (get_basin_fish_diversity b occ)
     = nunique (map Species_Name (filter (\<lambda>r. Basin_Name r = b) occ))"
  "native_species_count (get_basin_fish_diversity b occ)
     = nunique (map Species_Name (filter (\<lambda>r. Native_Exotic_Status r = ''native'')
         (filter (\<lambda>r. Basin_Name r = b) occ)))"
  "exotic_species_count (get_basin_fish_diversity b occ)
     = nunique (map Species_Name (filter (\<lambda>r. Native_Exotic_Status r = ''exotic'')
         (filter (\<lambda>r. Basin_Name r = b) occ)))"
  "species_list (get_basin_fish_diversity b occ)
     = unique (map Species_Name (filter (\<lambda>r. Basin_Name r = b) occ))"
  by (cases "filter (\<lambda>r. Basin_Name r = b) occ = []";
      simp add: get_basin_fish_diversity_def Let_def nunique_def unique_def del: filter_filter)+

text \<open>
  C7: the total count is the number of distinct species names among the records of the
  basin, whatever their status; the native and the exotic count are the numbers of
  distinct names among the records of the basin whose status is exactly \<open>native\<close> and
  exactly \<open>exotic\<close>. The species list holds each of the names once. The two counts need
  not add up to the total: in the example table the Ganges has a record of another
  status, and its native and exotic counts sum to less than its total.
\<close>

theorem diversity_counts:
  "species_count (get_basin_fish_diversity basin_name occ_df)
     = card {Species_Name r | r. r \<in> set occ_df \<and> Basin_Name r = basin_name} \<and>
   native_species_count (get_basin_fish_diversity basin_name occ_df)
     = card {Species_Name r | r. r \<in> set occ_df \<and> Basin_Name r = basin_name \<and>
               Native_Exotic_Status r = ''native''} \<and>
   exotic_species_count (get_basin_fish_diversity basin_name occ_df)
     = card {Species_Name r | r. r \<in> set occ_df \<and> Basin_Name r = basin_name \<and>
               Native_Exotic_Status r = ''exotic''} \<and>
   set (species_list (get_basin_fish_diversity basin_name occ_df))
     = {Species_Name r | r. r \<in> set occ_df \<and> Basin_Name r = basin_name} \<and>
   distinct (species_list (get_basin_fish_diversity basin_name occ_df)) \<and>
   native_species_count (get_basin_fish_diversity ''Ganges'' example_occ)
     + exotic_species_count (get_basin_fish_diversity ''Ganges'' example_occ)
     < species_count (get_basin_fish_diversity ''Ganges'' example_occ)"
proof -
  have a: "species_count (get_basin_fish_diversity basin_name occ_df)
     = card {Species_Name r | r. r \<in> set occ_df \<and> Basin_Name r = basin_name}"
    unfolding diversity_fields nunique_map_filter ..
  have "{Species_Name r | r. r \<in> set (filter (\<lambda>r. Basin_Name r = basin_name) occ_df) \<and>
            Native_Exotic_Status r = s}
        = {Species_Name r | r. r \<in> set occ_df \<and> Basin_Name r = basin_name \<and>
               Native_Exotic_Status r = s}" for s
    by auto
  then have b: "native_species_count (get_basin_fish_diversity basin_name occ_df)
     = card {Species_Name r | r. r \<in> set occ_df \<and> Basin_Name r = basin_name \<and>
               Native_Exotic_Status r = ''native''}"
    and c: "exotic_species_count (get_basin_fish_diversity basin_name occ_df)
     = card {Species_Name r | r. r \<in> set occ_df \<and> Basin_Name r = basin_name \<and>
               Native_Exotic_Status r = ''exotic''}"
    unfolding diversity_fields nunique_map_filter by simp_all
  have d: "set (species_list (get_basin_fish_diversity basin_name occ_df))
     = {Species_Name r | r. r \<in> set occ_df \<and> Basin_Name r = basin_name}"
    unfolding diversity_fields by auto
  have e: "distinct (species_list (get_basin_fish_diversity basin_name occ_df))"
    unfolding diversity_fields by simp
  have f: "native_species_count (get_basin_fish_diversity ''Ganges'' example_occ)
     + exotic_species_count (get_basin_fish_diversity ''Ganges'' example_occ)
     < species_count (get_basin_fish_diversity ''Ganges'' example_occ)"
    by code_simp
  from a b c d e f show ?thesis by blast
qed

text \<open>The Indus of the example table: three species, two native, one exotic.\<close>

theorem diversity_counts_witness:
  "card {Species_Name r | r. r \<in> set example_occ \<and> Basin_Name r = ''Indus''} = 3 \<and>
   card {Species_Name r | r. r \<in> set example_occ \<and> Basin_Name r = ''Indus'' \<and>
               Native_Exotic_Status r = ''native''} = 2 \<and>
   card {Species_Name r | r. r \<in> set example_occ \<and> Basin_Name r = ''Indus'' \<and>
               Native_Exotic_Status r = ''exotic''} = 1"
proof -
  have "species_count (get_basin_fish_diversity ''Indus'' example_occ) = 3"
    "native_species_count (get_basin_fish_diversity ''Indus'' example_occ) = 2"
    "exotic_species_count (get_basin_fish_diversity ''Indus'' example_occ) = 1"
    by code_simp+
  with diversity_counts[of "''Indus''" example_occ] show ?thesis by simp
qed

section \<open>The error of the rounding\<close>

lemma bits_bounds: "0 < n \<Longrightarrow> 2 ^ (bits n - 1) \<le> n \<and> n < 2 ^ bits n"
proof (induction n rule: bits.induct)
  case (1 n)
  show ?case
  proof (cases "n div 2 \<le> 0")
    case True
    with 1(2) have "n = 1" by linarith
    then show ?thesis by (simp add: bits.simps)
  next
    case False
    then have "0 < n div 2" by simp
    with 1 have ih: "2 ^ (bits (n div 2) - 1) \<le> n div 2" "n div 2 < 2 ^ bits (n div 2)" by simp_all
    have b: "bits n = Suc (bits (n div 2))" using 1(2) by (subst bits.simps) simp
    have pos: "0 < bits (n div 2)" using False by (subst bits.simps) simp
    have "(2::int) ^ (bits n - 1) = 2 * 2 ^ (bits (n div 2) - 1)"
      unfolding b using pos by (cases "bits (n div 2)") simp_all
    also have "\<dots> \<le> 2 * (n div 2)" using ih(1) by simp
    also have "\<dots> \<le> n" by simp
    finally have lo: "2 ^ (bits n - 1) \<le> n" .
    have "n < 2 * (n div 2) + 2" by presburger
    also have "\<dots> \<le> 2 * 2 ^ bits (n div 2)" using ih(2) by simp
    finally have "n < 2 ^ bits n" unfolding b by simp
    with lo show ?thesis by blast
  qed
qed

lemma float_exponent_le:
  assumes "0 < x"
  shows "2 powi (float_exponent x) \<le> x"
proof -
  obtain p q where pq: "quotient_of x = (p, q)" by (cases "quotient_of x")
  then have q: "0 < q" by (rule quotient_of_denom_pos)
  have x: "x = of_int p / of_int q" using pq by (rule quotient_of_div)
  with assms q have p: "0 < p" by (simp add: zero_less_divide_iff)
  let ?bp = "bits p" and ?bq = "bits q"
  define d where "d = int ?bp - int ?bq"
  have fe: "float_exponent x = (if 2 powi d \<le> x then d else d - 1)"
    by (simp add: float_exponent_def pq d_def Let_def)
  show ?thesis
  proof (cases "2 powi d \<le> x")
    case True
    with fe show ?thesis by simp
  next
    case False
    from bits_bounds[OF p] have lo: "2 ^ (?bp - 1) \<le> p" by simp
    from bits_bounds[OF q] have hi: "q < 2 ^ ?bq" by simp
    have bp: "0 < ?bp" using p by (subst bits.simps) simp
    have lo': "(2::rat) ^ (?bp - 1) \<le> of_int p"
    proof -
      have "(of_int (2 ^ (?bp - 1)) :: rat) \<le> of_int p" using lo by (simp only: of_int_le_iff)
      then show ?thesis by simp
    qed
    have hi': "of_int q \<le> (2::rat) ^ ?bq"
    proof -
      have "(of_int q :: rat) \<le> of_int (2 ^ ?bq)" using hi by (simp only: of_int_le_iff less_imp_le)
      then show ?thesis by simp
    qed
    have "d - 1 = int (?bp - 1) - int ?bq" using bp by (simp add: d_def)
    then have "(2::rat) powi (d - 1) = 2 ^ (?bp - 1) / 2 ^ ?bq"
      by (simp add: power_int_diff)
    also have "\<dots> \<le> of_int p / 2 ^ ?bq" using lo' by (simp add: divide_right_mono)
    also have "\<dots> \<le> of_int p / of_int q"
      using hi' p q by (intro divide_left_mono) simp_all
    finally show ?thesis using False fe x by simp
  qed
qed

lemma round_half_even_error: "\<bar>of_int (round_half_even m) - m\<bar> \<le> 1 / 2"
proof -
  have "of_int \<lfloor>m\<rfloor> \<le> m" "m < of_int \<lfloor>m\<rfloor> + 1" by linarith+
  then show ?thesis
    by (auto simp: round_half_even_def Let_def)
qed

lemma binary64_error: "\<bar>binary64 x - x\<bar> \<le> \<bar>x\<bar> / 2 ^ 53"
proof (cases "x = 0")
  case True
  then show ?thesis by (simp add: binary64_def)
next
  case False
  define e where "e = float_exponent \<bar>x\<bar>"
  define u :: rat where "u = 2 powi (e - 52)"
  define k where "k = round_half_even (\<bar>x\<bar> / u)"
  have u: "0 < u" by (simp add: u_def)
  have b: "binary64 x = sgn x * of_int k * u"
    using False by (simp add: binary64_def Let_def e_def u_def k_def)
  have xs: "x = sgn x * \<bar>x\<bar>" by (simp add: sgn_mult_abs)
  have "binary64 x - x = sgn x * (of_int k * u - \<bar>x\<bar>)"
    unfolding b by (subst (2) xs) (simp add: algebra_simps)
  then have "\<bar>binary64 x - x\<bar> = \<bar>of_int k * u - \<bar>x\<bar>\<bar>"
    using False by (simp add: abs_mult abs_sgn_eq)
  also have "of_int k * u - \<bar>x\<bar> = (of_int k - \<bar>x\<bar> / u) * u" using u by (simp add: field_simps)
  also have "\<bar>\<dots>\<bar> = \<bar>of_int k - \<bar>x\<bar> / u\<bar> * u" using u by (simp add: abs_mult)
  also have "\<dots> \<le> 1 / 2 * u"
    using round_half_even_error[of "\<bar>x\<bar> / u"] u unfolding k_def by (intro mult_right_mono) simp_all
  also have "1 / 2 * u = 2 powi e / 2 ^ 53"
    by (simp add: u_def power_int_diff)
  also have "\<dots> \<le> \<bar>x\<bar> / 2 ^ 53"
    using float_exponent_le[of "\<bar>x\<bar>"] False unfolding e_def by (simp add: divide_right_mono)
  finally show ?thesis .
qed

section \<open>Properties of the result rows\<close>

lemma jaccard_empty: "jaccard rnd {} {} = (0, 0)"
  by (simp add: jaccard_def)

lemma jaccard_tolerance:
  assumes rnd: "\<forall>x. \<bar>rnd x - x\<bar> \<le> \<bar>x\<bar> / 2 ^ 53"
    and fin: "finite S" "finite R" and ne: "S \<union> R \<noteq> {}"
    and j: "jaccard rnd S R = (sim, dis)"
  shows "\<bar>sim + dis - 1\<bar> \<le> 1 / 10 ^ 9 \<and> \<bar>rnd (sim + dis) - 1\<bar> \<le> 1 / 10 ^ 9"
proof -
  define e :: rat where "e = 1 / 2 ^ 53"
  have e: "0 < e" "e \<le> 1 / 4" by (simp_all add: e_def)
  have tol: "e \<le> 1 / 10 ^ 9" "3 * e \<le> 1 / 10 ^ 9" by (simp_all add: e_def)
  have r: "\<bar>rnd x - x\<bar> \<le> e" if "\<bar>x\<bar> \<le> 1" for x
  proof -
    have "\<bar>rnd x - x\<bar> \<le> \<bar>x\<bar> * e" using rnd by (simp add: e_def)
    also have "\<dots> \<le> 1 * e" using that e(1) by (intro mult_right_mono) simp_all
    finally show ?thesis by simp
  qed
  have r2: "\<bar>rnd x - x\<bar> \<le> 2 * e" if "\<bar>x\<bar> \<le> 2" for x
  proof -
    have "\<bar>rnd x - x\<bar> \<le> \<bar>x\<bar> * e" using rnd by (simp add: e_def)
    also have "\<dots> \<le> 2 * e" using that e(1) by (intro mult_right_mono) simp_all
    finally show ?thesis .
  qed
  let ?i = "card (S \<inter> R)" and ?u = "card (S \<union> R)"
  have u: "0 < ?u" using fin ne by (simp add: card_gt_0_iff)
  have iu: "?i \<le> ?u" using fin by (intro card_mono) auto
  define a :: rat where "a = of_nat ?i / of_nat ?u"
  have a: "0 \<le> a" "a \<le> 1" using u iu by (simp_all add: a_def)
  have nz: "\<not> (card S = 0 \<and> card R = 0)" using fin ne by auto
  from j nz u have sim: "sim = rnd a" and dis: "dis = rnd (1 - sim)"
    by (auto simp: jaccard_def Let_def a_def)
  have s1: "\<bar>sim - a\<bar> \<le> \<bar>a\<bar> * e" unfolding sim using rnd by (simp add: e_def)
  have e1: "e \<le> 1" by (simp add: e_def)
  have "a * e \<le> a * 1" using a(1) e1 by (rule mult_left_mono[rotated])
  then have "\<bar>a\<bar> * e \<le> a" using a(1) by simp
  with s1 a have s0: "0 \<le> sim" by linarith
  have s2: "\<bar>sim - a\<bar> \<le> e" unfolding sim using a by (intro r) simp
  with a e have s3: "sim \<le> 1 + e" by linarith
  have b1: "\<bar>1 - sim\<bar> \<le> 1" using s0 s3 e by linarith
  have d1: "\<bar>dis - (1 - sim)\<bar> \<le> e" unfolding dis using b1 by (rule r)
  then have t1: "\<bar>sim + dis - 1\<bar> \<le> e" by linarith
  then have "\<bar>sim + dis\<bar> \<le> 2" using e by linarith
  from r2[OF this] t1 have t2: "\<bar>rnd (sim + dis) - 1\<bar> \<le> 3 * e" by linarith
  from t1 tol(1) have "\<bar>sim + dis - 1\<bar> \<le> 1 / 10 ^ 9" by (rule order_trans)
  moreover from t2 tol(2) have "\<bar>rnd (sim + dis) - 1\<bar> \<le> 1 / 10 ^ 9" by (rule order_trans)
  ultimately show ?thesis by blast
qed

lemma process_project_row:
  assumes "process_project rnd contains distance basins_gdf occ_df p = (Inr row, out)"
  shows "jaccard rnd (set (species_list (get_basin_fish_diversity (sender_basin row) occ_df)))
             (set (species_list (get_basin_fish_diversity (receiver_basin row) occ_df)))
           = (jaccard_similarity row, jaccard_dissimilarity row) \<and>
         shared_species_count row
           = card (set (species_list (get_basin_fish_diversity (sender_basin row) occ_df))
                   \<inter> set (species_list (get_basin_fish_diversity (receiver_basin row) occ_df))) \<and>
         total_unique_species row
           = card (set (species_list (get_basin_fish_diversity (sender_basin row) occ_df))
                   \<union> set (species_list (get_basin_fish_diversity (receiver_basin row) occ_df)))"
  using assms
  by (auto simp: process_project_def Let_def split: prod.splits sum.splits)

lemma main_rows_row:
  assumes "main_rows rnd contains distance basins_gdf occ_df ps = (Inr rows, out)" "row \<in> set rows"
  shows "\<exists>p\<in>set ps. \<exists>out1. process_project rnd contains distance basins_gdf occ_df p = (Inr row, out1)"
  using assms
proof (induction ps arbitrary: rows out)
  case Nil
  then show ?case by simp
next
  case (Cons p ps)
  from Cons.prems(1) obtain r out1 rs out2 where
    p: "process_project rnd contains distance basins_gdf occ_df p = (Inr r, out1)" and
    m: "main_rows rnd contains distance basins_gdf occ_df ps = (Inr rs, out2)" and
    rows: "rows = r # rs"
    by (auto split: prod.splits sum.splits)
  show ?case
  proof (cases "row = r")
    case True
    with p show ?thesis by auto
  next
    case False
    with rows Cons.prems(2) have "row \<in> set rs" by simp
    from Cons.IH[OF m this] show ?thesis by auto
  qed
qed

text \<open>
  C1: for every row of the result table, with \<open>S\<close> and \<open>R\<close> the species sets of its
  sender and receiver basin: when the union of \<open>S\<close> and \<open>R\<close> is not empty, similarity
  plus dissimilarity is 1 within \<open>10\<^sup>-\<^sup>9\<close>, both as an exact sum and as the rounded sum a
  float addition gives; when both sets are empty, similarity and dissimilarity are both
  0, by the special case and not by a division. The rounding of the float operations is
  any function with the relative error bound of binary64, \<open>2\<^sup>-\<^sup>5\<^sup>3\<close>.
\<close>

theorem jaccard_identity_rows:
  assumes "\<forall>x. \<bar>rnd x - x\<bar> \<le> \<bar>x\<bar> / 2 ^ 53"
    and "main rnd contains distance basins_gdf occ_df ibt_df = (Inr rows, out)"
    and "row \<in> set rows"
  shows "(let S = set (species_list (get_basin_fish_diversity (sender_basin row) occ_df));
              R = set (species_list (get_basin_fish_diversity (receiver_basin row) occ_df))
          in total_unique_species row = card (S \<union> R) \<and>
             (S \<union> R \<noteq> {} \<longrightarrow>
                \<bar>jaccard_similarity row + jaccard_dissimilarity row - 1\<bar> \<le> 1 / 10 ^ 9 \<and>
                \<bar>rnd (jaccard_similarity row + jaccard_dissimilarity row) - 1\<bar> \<le> 1 / 10 ^ 9) \<and>
             (S = {} \<and> R = {} \<longrightarrow>
                jaccard_similarity row = 0 \<and> jaccard_dissimilarity row = 0))"
proof -
  let ?S = "set (species_list (get_basin_fish_diversity (sender_basin row) occ_df))"
  let ?R = "set (species_list (get_basin_fish_diversity (receiver_basin row) occ_df))"
  from assms(2) obtain ps where
    "main_rows rnd contains distance basins_gdf occ_df ps = (Inr rows, out)"
    by (auto simp: main_def split: sum.splits)
  from main_rows_row[OF this assms(3)] obtain p out1 where
    "process_project rnd contains distance basins_gdf occ_df p = (Inr row, out1)" by blast
  from process_project_row[OF this] have
    j: "jaccard rnd ?S ?R = (jaccard_similarity row, jaccard_dissimilarity row)" and
    u: "total_unique_species row = card (?S \<union> ?R)" by simp_all
  have a: "\<bar>jaccard_similarity row + jaccard_dissimilarity row - 1\<bar> \<le> 1 / 10 ^ 9 \<and>
           \<bar>rnd (jaccard_similarity row + jaccard_dissimilarity row) - 1\<bar> \<le> 1 / 10 ^ 9"
    if "?S \<union> ?R \<noteq> {}"
    using assms(1) _ _ that j by (rule jaccard_tolerance) simp_all
  have b: "jaccard_similarity row = 0 \<and> jaccard_dissimilarity row = 0" if "?S = {} \<and> ?R = {}"
    using j that by (simp add: jaccard_empty)
  from u a b show ?thesis unfolding Let_def by blast
qed

text \<open>
  The example run under the rounding of binary64: the first project joins two basins that
  share two of four species, the second has both ends in a basin without records, and the
  third joins basins that share one of three species, where the exact sum of the two
  rounded values is \<open>1 + 2\<^sup>-\<^sup>5\<^sup>4\<close>.
\<close>

theorem jaccard_identity_rows_witness:
  "\<exists>rows out. main binary64 band_contains band_distance example_basins example_occ example_ibt
       = (Inr rows, out) \<and>
     (\<forall>row\<in>set rows.
        let S = set (species_list (get_basin_fish_diversity (sender_basin row) example_occ));
            R = set (species_list (get_basin_fish_diversity (receiver_basin row) example_occ))
        in total_unique_species row = card (S \<union> R) \<and>
           (S \<union> R \<noteq> {} \<longrightarrow>
              \<bar>jaccard_similarity row + jaccard_dissimilarity row - 1\<bar> \<le> 1 / 10 ^ 9 \<and>
              \<bar>binary64 (jaccard_similarity row + jaccard_dissimilarity row) - 1\<bar> \<le> 1 / 10 ^ 9) \<and>
           (S = {} \<and> R = {} \<longrightarrow>
              jaccard_similarity row = 0 \<and> jaccard_dissimilarity row = 0)) \<and>
     map sender_basin rows = [''Indus'', ''Amur'', ''Nile''] \<and>
     map receiver_basin rows = [''Ganges'', ''Amur'', ''Indus''] \<and>
     map total_unique_species rows = [4, 0, 3] \<and> map shared_species_count rows = [2, 0, 1] \<and>
     map jaccard_similarity rows = [1 / 2, 0, 6004799503160661 / 2 ^ 54] \<and>
     map jaccard_dissimilarity rows = [1 / 2, 0, 3002399751580331 / 2 ^ 52]"
proof -
  have r: "\<forall>x. \<bar>binary64 x - x\<bar> \<le> \<bar>x\<bar> / 2 ^ 53" by (rule allI) (rule binary64_error)
  obtain rows out where m: "main binary64 band_contains band_distance example_basins example_occ
      example_ibt = (Inr rows, out)" and
    v: "map sender_basin rows = [''Indus'', ''Amur'', ''Nile'']"
      "map receiver_basin rows = [''Ganges'', ''Amur'', ''Indus'']"
      "map total_unique_species rows = [4, 0, 3]" "map shared_species_count rows = [2, 0, 1]"
      "map jaccard_similarity rows = [1 / 2, 0, 6004799503160661 / 2 ^ 54]"
      "map jaccard_dissimilarity rows = [1 / 2, 0, 3002399751580331 / 2 ^ 52]"
  proof -
    have "case main binary64 band_contains band_distance example_basins example_occ example_ibt of
            (Inr rows, out) \<Rightarrow>
              map sender_basin rows = [''Indus'', ''Amur'', ''Nile''] \<and>
              map receiver_basin rows = [''Ganges'', ''Amur'', ''Indus''] \<and>
              map total_unique_species rows = [4, 0, 3] \<and>
              map shared_species_count rows = [2, 0, 1] \<and>
              map jaccard_similarity rows = [1 / 2, 0, 6004799503160661 / 2 ^ 54] \<and>
              map jaccard_dissimilarity rows = [1 / 2, 0, 3002399751580331 / 2 ^ 52]
          | (Inl e, out) \<Rightarrow> False"
      by code_simp
    then show ?thesis using that by (auto split: prod.splits sum.splits)
  qed
  have q: "\<forall>row\<in>set rows.
        let S = set (species_list (get_basin_fish_diversity (sender_basin row) example_occ));
            R = set (species_list (get_basin_fish_diversity (receiver_basin row) example_occ))
        in total_unique_species row = card (S \<union> R) \<and>
           (S \<union> R \<noteq> {} \<longrightarrow>
              \<bar>jaccard_similarity row + jaccard_dissimilarity row - 1\<bar> \<le> 1 / 10 ^ 9 \<and>
              \<bar>binary64 (jaccard_similarity row + jaccard_dissimilarity row) - 1\<bar> \<le> 1 / 10 ^ 9) \<and>
           (S = {} \<and> R = {} \<longrightarrow>
              jaccard_similarity row = 0 \<and> jaccard_dissimilarity row = 0)"
  proof
    fix row assume "row \<in> set rows"
    from jaccard_identity_rows[where rnd=binary64 and contains=band_contains
        and distance=band_distance, OF r m this]
    show "let S = set (species_list (get_basin_fish_diversity (sender_basin row) example_occ));
            R = set (species_list (get_basin_fish_diversity (receiver_basin row) example_occ))
        in total_unique_species row = card (S \<union> R) \<and>
           (S \<union> R \<noteq> {} \<longrightarrow>
              \<bar>jaccard_similarity row + jaccard_dissimilarity row - 1\<bar> \<le> 1 / 10 ^ 9 \<and>
              \<bar>binary64 (jaccard_similarity row + jaccard_dissimilarity row) - 1\<bar> \<le> 1 / 10 ^ 9) \<and>
           (S = {} \<and> R = {} \<longrightarrow>
              jaccard_similarity row = 0 \<and> jaccard_dissimilarity row = 0)" .
  qed
  show ?thesis by (intro exI[of _ rows] exI[of _ out] conjI m v q)
qed

end
